theory Spec2Isabelle
  imports Main "HOL-Library.Word"
begin

unbundle bit_operations_syntax

section \<open>Data model of package arp\<close>

type_synonym byte = "8 word"
type_synonym uint32 = "32 word"

text \<open>\<^verbatim>\<open>net.IP\<close>, \<^verbatim>\<open>net.IPMask\<close> and \<^verbatim>\<open>net.HardwareAddr\<close> are byte slices.\<close>

type_synonym IP = "byte list"
type_synonym IPMask = "byte list"
type_synonym HardwareAddr = "byte list"

text \<open>\<^verbatim>\<open>net.IPNet\<close>: the struct with the fields \<^verbatim>\<open>IP\<close> and \<^verbatim>\<open>Mask\<close>.\<close>

record IPNet =
  IP :: IP
  Mask :: IPMask

section \<open>The address enumerator \<^verbatim>\<open>ips\<close> (arp.go, lines 201-213)\<close>

text \<open>
  \<^verbatim>\<open>binary.BigEndian.Uint32(b)\<close> reads the first four bytes of the slice,
  \<^verbatim>\<open>uint32(b[3]) | uint32(b[2])<<8 | uint32(b[1])<<16 | uint32(b[0])<<24\<close>, and panics
  (index out of range) on a slice shorter than four bytes: \<open>None\<close> is the panic.
\<close>

fun Uint32 :: "byte list \<Rightarrow> uint32 option" where
  "Uint32 (b0 # b1 # b2 # b3 # _) =
     Some (ucast b3 OR push_bit 8 (ucast b2) OR push_bit 16 (ucast b1) OR push_bit 24 (ucast b0))"
| "Uint32 _ = None"

text \<open>
  \<^verbatim>\<open>binary.BigEndian.PutUint32(buf[:], v)\<close> on a fresh \<^verbatim>\<open>[4]byte\<close>:
  \<^verbatim>\<open>b[0] = byte(v >> 24); b[1] = byte(v >> 16); b[2] = byte(v >> 8); b[3] = byte(v)\<close>.
\<close>

definition PutUint32 :: "uint32 \<Rightarrow> byte list" where
  "PutUint32 v = [ucast (drop_bit 24 v), ucast (drop_bit 16 v), ucast (drop_bit 8 v), ucast v]"

text \<open>
  The loop of \<^verbatim>\<open>ips\<close>, lines 205-211: while \<^verbatim>\<open>mask < 0xffffffff\<close>, append the
  big-endian bytes of \<^verbatim>\<open>num\<close> to \<^verbatim>\<open>out\<close>, then \<^verbatim>\<open>mask++\<close> and \<^verbatim>\<open>num++\<close> (both
  \<^verbatim>\<open>uint32\<close>, so \<open>+\<close> wraps).
\<close>

function ips_loop :: "uint32 \<Rightarrow> uint32 \<Rightarrow> IP list \<Rightarrow> IP list" where
  "ips_loop num msk out =
     (if msk < 0xffffffff then ips_loop (num + 1) (msk + 1) (out @ [PutUint32 num]) else out)"
  by pat_completeness auto
termination
proof (relation "measure (\<lambda>(num, msk, out). 2 ^ 32 - 1 - unat msk)")
  show "wf (measure (\<lambda>(num, msk, out). 2 ^ 32 - 1 - unat msk))"
    by simp
next
  fix num msk :: uint32 and out :: "IP list"
  assume lt: "msk < 0xffffffff"
  then have "unat msk < 2 ^ 32 - 1"
    by (simp add: word_less_nat_alt)
  moreover from this have "unat (msk + 1) = unat msk + 1"
    by (simp add: unat_word_ariths)
  ultimately show "((num + 1, msk + 1, out @ [PutUint32 num]), (num, msk, out))
      \<in> measure (\<lambda>(num, msk, out). 2 ^ 32 - 1 - unat msk)"
    by simp
qed

declare ips_loop.simps [simp del]

text \<open>
  \<^verbatim>\<open>ips\<close>, lines 201-213: \<^verbatim>\<open>num\<close> and \<^verbatim>\<open>mask\<close> are read big-endian from \<^verbatim>\<open>n.IP\<close> and
  \<^verbatim>\<open>n.Mask\<close> (the reads panic on a slice shorter than four bytes, so the result is
  \<open>None\<close>), \<^verbatim>\<open>num &= mask\<close>, and the loop fills \<^verbatim>\<open>out\<close>, which starts as the nil slice.
\<close>

definition ips :: "IPNet \<Rightarrow> IP list option" where
  "ips n =
     (case Uint32 (IP n) of
        None \<Rightarrow> None
      | Some num \<Rightarrow>
          (case Uint32 (Mask n) of
             None \<Rightarrow> None
           | Some msk \<Rightarrow> Some (ips_loop (num AND msk) msk [])))"


section \<open>Errors, interfaces and the host\<close>

text \<open>
  A Go \<^verbatim>\<open>error\<close> value is represented by its message: \<^verbatim>\<open>errors.New(msg)\<close> and
  \<^verbatim>\<open>fmt.Errorf(...)\<close> build \<open>Err msg\<close>, and so do the errors that library calls return.
\<close>

datatype error = Err string

text \<open>
  A \<^verbatim>\<open>net.Addr\<close> is an interface value; the type assertion \<^verbatim>\<open>a.(*net.IPNet)\<close> of line 86
  succeeds on \<open>IPNetAddr\<close> only.
\<close>

datatype Addr = IPNetAddr IPNet | OtherAddr

text \<open>
  \<^verbatim>\<open>net.Interface\<close>, with the fields the package reads. \<open>Addrs\<close> is the answer of the
  method call \<^verbatim>\<open>iface.Addrs()\<close>: an error or the list of bound addresses.
\<close>

record Interface =
  Name :: string
  HardwareAddr :: HardwareAddr
  Addrs :: "error + Addr list"

text \<open>The host: what the operating system's interface table answers (an error or the table).\<close>

type_synonym Host = "error + Interface list"

definition Interfaces :: "Host \<Rightarrow> error + Interface list" where
  "Interfaces host = host"

text \<open>
  \<^verbatim>\<open>net.InterfaceByName\<close> of the Go library: the empty name is invalid, a failing table
  lookup is an error, and otherwise the first interface of that name is returned.
\<close>

definition InterfaceByName :: "Host \<Rightarrow> string \<Rightarrow> error + Interface" where
  "InterfaceByName host name =
     (if name = [] then Inl (Err ''route ip+net: invalid network interface name'')
      else case host of
        Inl err \<Rightarrow> Inl err
      | Inr ift \<Rightarrow>
          (case find (\<lambda>ifi. name = Name ifi) ift of
             None \<Rightarrow> Inl (Err ''route ip+net: no such network interface'')
           | Some ifi \<Rightarrow> Inr ifi))"

section \<open>\<^verbatim>\<open>IfaceToName\<close> (arp.go, lines 40-60) and \<^verbatim>\<open>New\<close> (lines 65-73)\<close>

text \<open>
  \<^verbatim>\<open>strings.Split(s, sep)\<close> for a separator of one byte: the pieces of \<open>s\<close> between the
  occurrences of \<open>sep\<close>, one more piece than there are separators (so the empty string gives
  one empty piece).
\<close>

fun Split :: "string \<Rightarrow> char \<Rightarrow> string list" where
  "Split [] sep = [[]]"
| "Split (c # cs) sep =
     (if c = sep then [] # Split cs sep
      else (case Split cs sep of
              [] \<Rightarrow> [[c]]
            | piece # pieces \<Rightarrow> (c # piece) # pieces))"

text \<open>Lines 47-49: \<^verbatim>\<open>for _, iface := range ifaces { r = append(r, iface.Name) }\<close>.\<close>

fun append_names :: "string list \<Rightarrow> Interface list \<Rightarrow> string list" where
  "append_names r [] = r"
| "append_names r (ifi # ifaces) = append_names (r @ [Name ifi]) ifaces"

text \<open>
  Lines 53-58: each name of \<open>r\<close> in order is looked up; the first failing lookup returns
  \<open>r\<close> with \<^verbatim>\<open>fmt.Errorf("interface %v: unkown", interfaceName)\<close>.
\<close>

fun check_names :: "Host \<Rightarrow> string list \<Rightarrow> string list \<Rightarrow> string list \<times> error option" where
  "check_names host r [] = (r, None)"
| "check_names host r (interfaceName # rest) =
     (case InterfaceByName host interfaceName of
        Inl err \<Rightarrow> (r, Some (Err (''interface '' @ interfaceName @ '': unkown'')))
      | Inr ifi \<Rightarrow> check_names host r rest)"

definition IfaceToName :: "Host \<Rightarrow> string \<Rightarrow> string list \<times> error option" where
  "IfaceToName host interfaceNames =
     (if interfaceNames = ''all'' then
        (case Interfaces host of
           Inl err \<Rightarrow> ([], Some err)
         | Inr ifaces \<Rightarrow> (append_names [] ifaces, None))
      else
        (let r = Split interfaceNames (CHR '','') in check_names host r r))"

record arpStruct =
  iface :: Interface

text \<open>\<^verbatim>\<open>New\<close> returns the struct with the error; \<open>None\<close> is the nil \<^verbatim>\<open>iface\<close> pointer.\<close>

definition New :: "Host \<Rightarrow> string \<Rightarrow> Interface option \<times> error option" where
  "New host interfaceName =
     (case InterfaceByName host interfaceName of
        Inl err \<Rightarrow> (None, Some (Err (''interface '' @ interfaceName @ '': unkown'')))
      | Inr ifi \<Rightarrow> (Some ifi, None))"

section \<open>The validation prologue of \<^verbatim>\<open>Scan\<close> (arp.go, lines 79-106)\<close>

text \<open>
  \<^verbatim>\<open>net.IP.To4\<close> of the Go library: a 4-byte address is returned as it is, a 16-byte
  address with the IPv4-in-IPv6 prefix (ten zero bytes, then \<open>0xff 0xff\<close>) gives its last four
  bytes, anything else gives nil (\<open>None\<close>).
\<close>

definition To4 :: "IP \<Rightarrow> IP option" where
  "To4 ip =
     (if length ip = 4 then Some ip
      else if length ip = 16 \<and> take 10 ip = replicate 10 0 \<and> ip ! 10 = 0xff \<and> ip ! 11 = 0xff
           then Some (drop 12 ip)
      else None)"

text \<open>
  The loop of lines 85-95 over the bound addresses: the first \<^verbatim>\<open>*net.IPNet\<close> whose address
  has a 4-byte form is selected, with the last four bytes of its mask
  (\<^verbatim>\<open>ipnet.Mask[len(ipnet.Mask)-4:]\<close>, a slice expression that panics on a mask shorter than
  four bytes). The outer \<open>None\<close> is that panic; \<open>Some None\<close> is \<^verbatim>\<open>addr == nil\<close>.
\<close>

fun select_addr :: "Addr list \<Rightarrow> IPNet option option" where
  "select_addr [] = Some None"
| "select_addr (OtherAddr # addrs) = select_addr addrs"
| "select_addr (IPNetAddr ipnet # addrs) =
     (case To4 (IP ipnet) of
        None \<Rightarrow> select_addr addrs
      | Some ip4 \<Rightarrow>
          (if length (Mask ipnet) < 4 then None
           else Some (Some \<lparr>IP = ip4, Mask = drop (length (Mask ipnet) - 4) (Mask ipnet)\<rparr>)))"

datatype resolved = Panicked | Failed error | Resolved IPNet

text \<open>
  Lines 81-106. The checks run in the order of the source: the error of \<^verbatim>\<open>Addrs()\<close>, the
  empty hardware address (line 96), \<^verbatim>\<open>addr == nil\<close> (line 100), the first octet 127
  (line 102), the first two mask octets (line 104). The selected address and mask have four
  bytes each, so the index expressions of lines 102 and 104 are in range.
\<close>

definition Scan_resolve :: "arpStruct \<Rightarrow> resolved" where
  "Scan_resolve a =
     (case Addrs (iface a) of
        Inl err \<Rightarrow> Failed err
      | Inr addrs \<Rightarrow>
          (case select_addr addrs of
             None \<Rightarrow> Panicked
           | Some addr \<Rightarrow>
               (if length (HardwareAddr (iface a)) = 0 then
                  Failed (Err ''Could not obtain MAC address'')
                else case addr of
                  None \<Rightarrow> Failed (Err ''no good IP network found'')
                | Some n \<Rightarrow>
                    (if IP n ! 0 = 127 then Failed (Err ''skipping localhost'')
                     else if Mask n ! 0 \<noteq> 0xff \<or> Mask n ! 1 \<noteq> 0xff then
                       Failed (Err ''mask means network is too large'')
                     else Resolved n))))"


section \<open>Frames, the capture handle and the result table\<close>

text \<open>
  The fields of \<^verbatim>\<open>layers.Ethernet\<close> and \<^verbatim>\<open>layers.ARP\<close> that the package sets or reads,
  and the constants of gopacket it names.
\<close>

record Ethernet =
  SrcMAC :: HardwareAddr
  DstMAC :: HardwareAddr
  EthernetType :: "16 word"

record ARP =
  AddrType :: "8 word"
  Protocol :: "16 word"
  HwAddressSize :: "8 word"
  ProtAddressSize :: "8 word"
  Operation :: "16 word"
  SourceHwAddress :: "byte list"
  SourceProtAddress :: "byte list"
  DstHwAddress :: "byte list"
  DstProtAddress :: "byte list"

definition ARPRequest :: "16 word" where "ARPRequest = 1"
definition ARPReply :: "16 word" where "ARPReply = 2"
definition EthernetTypeARP :: "16 word" where "EthernetTypeARP = 0x0806"
definition EthernetTypeIPv4 :: "16 word" where "EthernetTypeIPv4 = 0x0800"
definition LinkTypeEthernet :: "8 word" where "LinkTypeEthernet = 1"

text \<open>
  The content of the serialize buffer that is handed to \<^verbatim>\<open>WritePacketData\<close>: the bytes
  of the Ethernet header followed by the ARP payload, or what a failed call of
  \<^verbatim>\<open>gopacket.SerializeLayers\<close> leaves in the buffer: the ARP payload alone when the
  Ethernet layer failed, and as many zero bytes as the ARP payload would take when the ARP
  layer failed.
\<close>

datatype Frame = Frame Ethernet ARP | ARP_only ARP | Zeros nat

text \<open>
  \<^verbatim>\<open>gopacket.SerializeLayers(buf, opts, &eth, &arp)\<close> with \<^verbatim>\<open>FixLengths\<close> (lines 183-190),
  for an Ethernet layer whose length field is unset and whose type is not LLC, as line 166
  builds it. The buffer is cleared and the layers are serialized last to first. The ARP
  layer takes \<^verbatim>\<open>8 + len(SourceHwAddress) + len(SourceProtAddress) + len(DstHwAddress) +
  len(DstProtAddress)\<close> zero bytes from the buffer, fails when the two hardware address
  sizes differ, sets \<^verbatim>\<open>arp.HwAddressSize\<close>, fails when the two protocol address sizes
  differ, sets \<^verbatim>\<open>arp.ProtAddressSize\<close>, and writes its fields. The Ethernet layer fails
  on a destination or source MAC that is not six bytes long and prepends its header
  otherwise. The first failing layer ends the call. The result is the \<^verbatim>\<open>arp\<close> value as
  the call leaves it and the content of the buffer; line 190 drops the error.
\<close>

definition SerializeLayers :: "Ethernet \<Rightarrow> ARP \<Rightarrow> ARP \<times> Frame" where
  "SerializeLayers eth arp =
     (let size = 8 + length (SourceHwAddress arp) + length (SourceProtAddress arp)
                   + length (DstHwAddress arp) + length (DstProtAddress arp);
          arp1 = arp\<lparr>HwAddressSize := of_nat (length (SourceHwAddress arp))\<rparr>;
          arp2 = arp1\<lparr>ProtAddressSize := of_nat (length (SourceProtAddress arp))\<rparr>
      in if length (SourceHwAddress arp) \<noteq> length (DstHwAddress arp) then (arp, Zeros size)
         else if length (SourceProtAddress arp) \<noteq> length (DstProtAddress arp) then (arp1, Zeros size)
         else if length (DstMAC eth) \<noteq> 6 \<or> length (SrcMAC eth) \<noteq> 6 then (arp2, ARP_only arp2)
         else (arp2, Frame eth arp2))"

text \<open>
  The transmit side of a \<^verbatim>\<open>pcap.Handle\<close>: \<open>wlog\<close> holds every frame handed to
  \<^verbatim>\<open>WritePacketData\<close> so far, in call order, and \<open>wres k\<close> is what the device answers to
  call number \<open>k\<close> (\<open>None\<close> is a nil error).
\<close>

record Handle =
  wres :: "nat \<Rightarrow> error option"
  wlog :: "Frame list"

definition WritePacketData :: "Handle \<Rightarrow> Frame \<Rightarrow> Handle \<times> error option" where
  "WritePacketData h data = (h\<lparr>wlog := wlog h @ [data]\<rparr>, wres h (length (wlog h)))"

text \<open>
  A received \<^verbatim>\<open>gopacket.Packet\<close>: \<open>LayerARP\<close> is the answer of
  \<^verbatim>\<open>packet.Layer(layers.LayerTypeARP)\<close>, \<open>None\<close> for nil.
\<close>

datatype Packet = Packet (LayerARP: "ARP option")

text \<open>
  \<^verbatim>\<open>arpTable\<close> (lines 18-21); its fields \<^verbatim>\<open>IP\<close> and \<^verbatim>\<open>HardwareAddr\<close> carry the prefix
  \<open>at_\<close> here, the plain names being fields of \<open>IPNet\<close> and \<open>Interface\<close>.
\<close>

record arpTable =
  at_IP :: IP
  at_HardwareAddr :: HardwareAddr

type_synonym arpTables = "arpTable list"

section \<open>\<^verbatim>\<open>readARP\<close>: what the listener does with one received packet (lines 141-156)\<close>

text \<open>
  The body of \<^verbatim>\<open>case packet = <-in\<close>: a packet without ARP layer is skipped; so is one
  whose operation is not \<^verbatim>\<open>ARPReply\<close> or whose source hardware address equals
  (\<^verbatim>\<open>bytes.Equal\<close>) the interface's; otherwise one entry is appended to \<^verbatim>\<open>*arpTables\<close>.
\<close>

definition readARP_packet :: "Interface \<Rightarrow> arpTables \<Rightarrow> Packet \<Rightarrow> arpTables" where
  "readARP_packet ifc tables packet =
     (case LayerARP packet of
        None \<Rightarrow> tables
      | Some arp \<Rightarrow>
          (if Operation arp \<noteq> ARPReply \<or> HardwareAddr ifc = SourceHwAddress arp then tables
           else tables @ [\<lparr>at_IP = SourceProtAddress arp, at_HardwareAddr = SourceHwAddress arp\<rparr>]))"

section \<open>\<^verbatim>\<open>writeARP\<close> (lines 164-196)\<close>

text \<open>
  The loop of lines 188-194 over the candidates: the target protocol address of the one
  \<^verbatim>\<open>arp\<close> value is overwritten, the layers are serialized (the error is dropped) and
  the bytes of the buffer are written; an error of the write is returned at once.
\<close>

fun writeARP_loop :: "Handle \<Rightarrow> Ethernet \<Rightarrow> ARP \<Rightarrow> IP list \<Rightarrow> Handle \<times> error option" where
  "writeARP_loop h eth arp [] = (h, None)"
| "writeARP_loop h eth arp (ip # rest) =
     (case SerializeLayers eth (arp\<lparr>DstProtAddress := ip\<rparr>) of
        (arp', data) \<Rightarrow>
          (case WritePacketData h data of
             (h', Some err) \<Rightarrow> (h', Some err)
           | (h', None) \<Rightarrow> writeARP_loop h' eth arp' rest))"

definition writeARP_eth :: "Interface \<Rightarrow> Ethernet" where
  "writeARP_eth ifc =
     \<lparr>SrcMAC = HardwareAddr ifc,
      DstMAC = [0xff, 0xff, 0xff, 0xff, 0xff, 0xff],
      EthernetType = EthernetTypeARP\<rparr>"

definition writeARP_arp :: "Interface \<Rightarrow> IPNet \<Rightarrow> ARP" where
  "writeARP_arp ifc addr =
     \<lparr>AddrType = LinkTypeEthernet,
      Protocol = EthernetTypeIPv4,
      HwAddressSize = 6,
      ProtAddressSize = 4,
      Operation = ARPRequest,
      SourceHwAddress = HardwareAddr ifc,
      SourceProtAddress = IP addr,
      DstHwAddress = [0, 0, 0, 0, 0, 0],
      DstProtAddress = []\<rparr>"

text \<open>\<open>None\<close> is the panic of \<^verbatim>\<open>ips\<close> on an address or mask shorter than four bytes.\<close>

definition writeARP :: "Handle \<Rightarrow> Interface \<Rightarrow> IPNet \<Rightarrow> (Handle \<times> error option) option" where
  "writeARP h ifc addr =
     (case ips addr of
        None \<Rightarrow> None
      | Some candidates \<Rightarrow>
          Some (writeARP_loop h (writeARP_eth ifc) (writeARP_arp ifc addr) candidates))"


section \<open>The concurrent phase of \<^verbatim>\<open>Scan\<close> (lines 116-129) with \<^verbatim>\<open>readARP\<close> (lines 132-160)\<close>

text \<open>
  From line 116 on two goroutines run: the coordinator (the rest of \<^verbatim>\<open>Scan\<close>) and the
  listener (\<^verbatim>\<open>readARP\<close>). They are modelled as an interleaving of atomic steps on one
  state. The state holds the shared slice \<^verbatim>\<open>at\<close>, the handle, whether the channel
  \<^verbatim>\<open>stop\<close> has been closed, the packets that the packet source has still to deliver on
  the channel \<^verbatim>\<open>in\<close>, and a program counter for each goroutine.
\<close>

type_synonym result = "arpTables \<times> error option"

datatype coord_pc =
    C_writeARP  \<comment> \<open>line 120, before the call of \<^verbatim>\<open>writeARP\<close>\<close>
  | C_return_err error  \<comment> \<open>line 122, before \<^verbatim>\<open>return at, err\<close> reads \<^verbatim>\<open>at\<close>\<close>
  | C_sleep  \<comment> \<open>line 127\<close>
  | C_send  \<comment> \<open>line 128, blocked in \<^verbatim>\<open>stop <- true\<close>\<close>
  | C_return_ok  \<comment> \<open>line 129, before \<^verbatim>\<open>return at, nil\<close> reads \<^verbatim>\<open>at\<close>\<close>
  | C_close_stop result  \<comment> \<open>results set; deferred \<^verbatim>\<open>close(stop)\<close> of line 118 pending\<close>
  | C_close_handle result  \<comment> \<open>deferred \<^verbatim>\<open>handle.Close()\<close> of line 114 pending\<close>
  | C_returned result
  | C_panicked

datatype listen_pc =
    L_select  \<comment> \<open>at the \<^verbatim>\<open>select\<close> of line 137\<close>
  | L_returned  \<comment> \<open>after the \<^verbatim>\<open>return\<close> of line 139\<close>

record State =
  at :: arpTables
  handle :: Handle
  stop_closed :: bool
  inq :: "Packet list"
  coord :: coord_pc
  listener :: listen_pc

text \<open>
  The steps. \<^verbatim>\<open>writeARP\<close> touches the transmit side of the handle and its own locals only,
  none of which the listener reads, so the call is one step of the coordinator.
  \<^verbatim>\<open>stop\<close> is made without capacity (line 116): the send of line 128 completes only
  together with the listener's receive of line 138 (\<open>rendezvous\<close>). A receive from the
  closed channel succeeds at once (\<open>observe_close\<close>). The results of a \<^verbatim>\<open>return\<close> are
  evaluated before the deferred calls run, the last deferred first.
\<close>

inductive step :: "Interface \<Rightarrow> IPNet \<Rightarrow> State \<Rightarrow> State \<Rightarrow> bool"
  for ifc :: Interface and addr :: IPNet
where
  write_ok:
    "coord s = C_writeARP \<Longrightarrow> writeARP (handle s) ifc addr = Some (h', None) \<Longrightarrow>
     step ifc addr s (s\<lparr>handle := h', coord := C_sleep\<rparr>)"
| write_err:
    "coord s = C_writeARP \<Longrightarrow> writeARP (handle s) ifc addr = Some (h', Some err) \<Longrightarrow>
     step ifc addr s (s\<lparr>handle := h', coord := C_return_err err\<rparr>)"
| write_panic:
    "coord s = C_writeARP \<Longrightarrow> writeARP (handle s) ifc addr = None \<Longrightarrow>
     step ifc addr s (s\<lparr>coord := C_panicked\<rparr>)"
| return_err:
    "coord s = C_return_err err \<Longrightarrow>
     step ifc addr s (s\<lparr>coord := C_close_stop (at s, Some err)\<rparr>)"
| sleep:
    "coord s = C_sleep \<Longrightarrow> step ifc addr s (s\<lparr>coord := C_send\<rparr>)"
| rendezvous:
    "coord s = C_send \<Longrightarrow> listener s = L_select \<Longrightarrow>
     step ifc addr s (s\<lparr>coord := C_return_ok, listener := L_returned\<rparr>)"
| return_ok:
    "coord s = C_return_ok \<Longrightarrow>
     step ifc addr s (s\<lparr>coord := C_close_stop (at s, None)\<rparr>)"
| close_stop:
    "coord s = C_close_stop r \<Longrightarrow>
     step ifc addr s (s\<lparr>stop_closed := True, coord := C_close_handle r\<rparr>)"
| close_handle:
    "coord s = C_close_handle r \<Longrightarrow> step ifc addr s (s\<lparr>coord := C_returned r\<rparr>)"
| receive:
    "listener s = L_select \<Longrightarrow> inq s = packet # rest \<Longrightarrow>
     step ifc addr s (s\<lparr>at := readARP_packet ifc (at s) packet, inq := rest\<rparr>)"
| observe_close:
    "listener s = L_select \<Longrightarrow> stop_closed s \<Longrightarrow>
     step ifc addr s (s\<lparr>listener := L_returned\<rparr>)"

text \<open>The state after \<^verbatim>\<open>go readARP(...)\<close> and \<^verbatim>\<open>defer close(stop)\<close> (lines 116-118).\<close>

definition start :: "Handle \<Rightarrow> Packet list \<Rightarrow> State" where
  "start h packets =
     \<lparr>at = [], handle = h, stop_closed = False, inq = packets,
      coord = C_writeARP, listener = L_select\<rparr>"

section \<open>\<^verbatim>\<open>Scan\<close> (lines 77-130)\<close>

text \<open>
  The world of one call: what \<^verbatim>\<open>pcap.OpenLive\<close> answers for an interface name (an error,
  or a handle given by the answers of its device to the writes), and the packets that arrive.
\<close>

record World =
  OpenLive :: "string \<Rightarrow> error + (nat \<Rightarrow> error option)"
  Packets :: "Packet list"

text \<open>
  \<open>Scan a w r sent\<close>: the call can return the pair \<open>r\<close>, having handed the frames \<open>sent\<close>
  to the handle. A call that panics returns nothing.
\<close>

inductive Scan :: "arpStruct \<Rightarrow> World \<Rightarrow> result \<Rightarrow> Frame list \<Rightarrow> bool" where
  Scan_invalid:
    "Scan_resolve a = Failed err \<Longrightarrow> Scan a w ([], Some err) []"
| Scan_open_failed:
    "Scan_resolve a = Resolved addr \<Longrightarrow> OpenLive w (Name (iface a)) = Inl err \<Longrightarrow>
     Scan a w ([], Some err) []"
| Scan_ran:
    "Scan_resolve a = Resolved addr \<Longrightarrow> OpenLive w (Name (iface a)) = Inr dev \<Longrightarrow>
     (step (iface a) addr)\<^sup>*\<^sup>* (start \<lparr>wres = dev, wlog = []\<rparr> (Packets w)) s \<Longrightarrow>
     coord s = C_returned r \<Longrightarrow>
     Scan a w r (wlog (handle s))"

section \<open>Derived notions used in the statements\<close>

text \<open>
  The inverse of \<open>Split\<close>: \<^verbatim>\<open>strings.Join\<close> with a separator of one byte.
\<close>

fun Join :: "string list \<Rightarrow> char \<Rightarrow> string" where
  "Join [] sep = []"
| "Join [piece] sep = piece"
| "Join (piece # next_piece # pieces) sep = piece @ sep # Join (next_piece # pieces) sep"

text \<open>
  The table of a listener that has handled the first \<open>n\<close> of the delivered packets:
  the loop of lines 135-159 run \<open>n\<close> times through \<^verbatim>\<open>case packet = <-in\<close>, from the nil
  slice.
\<close>

definition received :: "Interface \<Rightarrow> Packet list \<Rightarrow> nat \<Rightarrow> arpTables" where
  "received ifc packets n = foldl (readARP_packet ifc) [] (take n packets)"

text \<open>
  What the loop of \<^verbatim>\<open>writeARP\<close> hands to the handle for one candidate
  (lines 189-191): the buffer after the serialization of the two layers.
\<close>

definition request_frame :: "Interface \<Rightarrow> IPNet \<Rightarrow> IP \<Rightarrow> Frame" where
  "request_frame ifc addr ip =
     snd (SerializeLayers (writeARP_eth ifc) ((writeARP_arp ifc addr)\<lparr>DstProtAddress := ip\<rparr>))"

text \<open>
  The results of the call, once a \<^verbatim>\<open>return\<close> statement of \<^verbatim>\<open>Scan\<close> has set them.
\<close>

fun results :: "coord_pc \<Rightarrow> result option" where
  "results (C_close_stop r) = Some r"
| "results (C_close_handle r) = Some r"
| "results (C_returned r) = Some r"
| "results pc = None"

text \<open>
  The invariant of the concurrent phase, by the coordinator's position: what the handle
  and \<^verbatim>\<open>writeARP\<close>'s answer are, whether \<^verbatim>\<open>stop\<close> is closed, where the listener is,
  and what the results are once they are set.
\<close>

definition read_inv :: "Interface \<Rightarrow> Packet list \<Rightarrow> result \<Rightarrow> State \<Rightarrow> bool" where
  "read_inv ifc packets r s =
     ((\<exists>m \<le> length packets. fst r = received ifc packets m)
      \<and> (snd r = None \<longrightarrow> listener s = L_returned \<and> fst r = at s))"

definition coord_inv :: "Handle \<Rightarrow> Interface \<Rightarrow> IPNet \<Rightarrow> Packet list \<Rightarrow> State \<Rightarrow> bool" where
  "coord_inv h ifc addr packets s =
     (case coord s of
        C_writeARP \<Rightarrow> handle s = h \<and> \<not> stop_closed s \<and> listener s = L_select
      | C_return_err err \<Rightarrow>
          writeARP h ifc addr = Some (handle s, Some err) \<and> \<not> stop_closed s \<and> listener s = L_select
      | C_sleep \<Rightarrow>
          writeARP h ifc addr = Some (handle s, None) \<and> \<not> stop_closed s \<and> listener s = L_select
      | C_send \<Rightarrow>
          writeARP h ifc addr = Some (handle s, None) \<and> \<not> stop_closed s \<and> listener s = L_select
      | C_return_ok \<Rightarrow>
          writeARP h ifc addr = Some (handle s, None) \<and> \<not> stop_closed s \<and> listener s = L_returned
      | C_close_stop r \<Rightarrow>
          writeARP h ifc addr = Some (handle s, snd r) \<and> \<not> stop_closed s \<and> read_inv ifc packets r s
      | C_close_handle r \<Rightarrow>
          writeARP h ifc addr = Some (handle s, snd r) \<and> stop_closed s \<and> read_inv ifc packets r s
      | C_returned r \<Rightarrow>
          writeARP h ifc addr = Some (handle s, snd r) \<and> stop_closed s \<and> read_inv ifc packets r s
      | C_panicked \<Rightarrow> writeARP h ifc addr = None)"

section \<open>Example interfaces, packets and worlds\<close>

text \<open>
  Concrete inputs on which the theorems are instantiated: two interfaces of a host, an
  interface with one bound address, an interface without address and hardware address, a
  /29 network with seven candidates, packets as the listener may see them, and worlds whose
  device accepts every write, refuses the third write, or cannot be opened.
\<close>

definition eth0 :: Interface where
  "eth0 = \<lparr>Name = ''eth0'', HardwareAddr = [0xaa, 0xbb, 0xcc, 0xdd, 0xee, 0xff], Addrs = Inr []\<rparr>"

definition eth1 :: Interface where
  "eth1 = \<lparr>Name = ''eth1'', HardwareAddr = [2, 0, 0, 0, 0, 1], Addrs = Inr []\<rparr>"

definition eth1_spaced :: Interface where
  "eth1_spaced = \<lparr>Name = '' eth1'', HardwareAddr = [2, 0, 0, 0, 0, 2], Addrs = Inr []\<rparr>"

definition mac0 :: HardwareAddr where
  "mac0 = [0xaa, 0xbb, 0xcc, 0xdd, 0xee, 0xff]"

definition nic :: "HardwareAddr \<Rightarrow> IP \<Rightarrow> IPMask \<Rightarrow> arpStruct" where
  "nic mac ip mk =
     \<lparr>iface = \<lparr>Name = ''eth0'', HardwareAddr = mac, Addrs = Inr [IPNetAddr \<lparr>IP = ip, Mask = mk\<rparr>]\<rparr>\<rparr>"

definition bare :: arpStruct where
  "bare = \<lparr>iface = \<lparr>Name = ''dummy0'', HardwareAddr = [], Addrs = Inr []\<rparr>\<rparr>"

definition net29 :: IPNet where
  "net29 = \<lparr>IP = [10, 0, 0, 10], Mask = [255, 255, 255, 248]\<rparr>"

definition nic29 :: arpStruct where
  "nic29 = nic mac0 [10, 0, 0, 10] [255, 255, 255, 248]"

definition peer_reply :: Packet where
  "peer_reply = Packet (Some
     \<lparr>AddrType = LinkTypeEthernet, Protocol = EthernetTypeIPv4, HwAddressSize = 6,
      ProtAddressSize = 4, Operation = ARPReply, SourceHwAddress = [2, 0, 0, 0, 0, 9],
      SourceProtAddress = [10, 0, 0, 9], DstHwAddress = mac0, DstProtAddress = [10, 0, 0, 10]\<rparr>)"

definition peer_entry :: arpTable where
  "peer_entry = \<lparr>at_IP = [10, 0, 0, 9], at_HardwareAddr = [2, 0, 0, 0, 0, 9]\<rparr>"

definition own_reply :: Packet where
  "own_reply = Packet (Some
     \<lparr>AddrType = LinkTypeEthernet, Protocol = EthernetTypeIPv4, HwAddressSize = 6,
      ProtAddressSize = 4, Operation = ARPReply, SourceHwAddress = mac0,
      SourceProtAddress = [10, 0, 0, 10], DstHwAddress = [2, 0, 0, 0, 0, 9],
      DstProtAddress = [10, 0, 0, 9]\<rparr>)"

definition peer_request :: Packet where
  "peer_request = Packet (Some
     \<lparr>AddrType = LinkTypeEthernet, Protocol = EthernetTypeIPv4, HwAddressSize = 6,
      ProtAddressSize = 4, Operation = ARPRequest, SourceHwAddress = [2, 0, 0, 0, 0, 9],
      SourceProtAddress = [10, 0, 0, 9], DstHwAddress = [0, 0, 0, 0, 0, 0],
      DstProtAddress = [10, 0, 0, 10]\<rparr>)"

definition down :: error where
  "down = Err ''send: Network is down''"

definition third_write_fails :: "nat \<Rightarrow> error option" where
  "third_write_fails k = (if k = 2 then Some down else None)"

definition quiet :: World where
  "quiet = \<lparr>OpenLive = (\<lambda>name. Inr (\<lambda>k. None)), Packets = []\<rparr>"

definition flaky :: World where
  "flaky = \<lparr>OpenLive = (\<lambda>name. Inr third_write_fails), Packets = [peer_reply]\<rparr>"

definition denied :: World where
  "denied = \<lparr>OpenLive = (\<lambda>name. Inl (Err (name @ '': permission denied''))),
      Packets = []\<rparr>"

definition after_success :: State where
  "after_success =
     \<lparr>at = [peer_entry],
      handle = \<lparr>wres = (\<lambda>k. None),
                wlog = map (request_frame (iface nic29) net29)
                       [[10, 0, 0, 8], [10, 0, 0, 9], [10, 0, 0, 10], [10, 0, 0, 11],
                        [10, 0, 0, 12], [10, 0, 0, 13], [10, 0, 0, 14]]\<rparr>,
      stop_closed = True, inq = [],
      coord = C_returned ([peer_entry], None), listener = L_returned\<rparr>"

definition after_failure :: State where
  "after_failure =
     \<lparr>at = [peer_entry],
      handle = \<lparr>wres = third_write_fails,
                wlog = (map (request_frame (iface nic29) net29) [[10, 0, 0, 8], [10, 0, 0, 9], [10, 0, 0, 10]])\<rparr>,
      stop_closed = True, inq = [],
      coord = C_returned ([], Some down), listener = L_select\<rparr>"

section \<open>Properties of the address enumerator\<close>

text \<open>The loop in closed form: it appends the big-endian bytes of the consecutive numbers.\<close>

lemma ips_loop_closed:
  "ips_loop num msk out = out @ map (\<lambda>k. PutUint32 (num + of_nat k)) [0..<2 ^ 32 - 1 - unat msk]"
proof (induction num msk out rule: ips_loop.induct)
  case (1 num msk out)
  show ?case
  proof (cases "msk < 0xffffffff")
    case True
    then have lt: "unat msk < 2 ^ 32 - 1"
      by (simp add: word_less_nat_alt)
    then have u: "unat (msk + 1) = unat msk + 1"
      by (simp add: unat_word_ariths)
    have "2 ^ 32 - 1 - unat msk = Suc (2 ^ 32 - 1 - unat (msk + 1))"
      using lt u by simp
    then have "[0..<2 ^ 32 - 1 - unat msk] = 0 # map Suc [0..<2 ^ 32 - 1 - unat (msk + 1)]"
      by (simp only: upt_conv_Cons map_Suc_upt)
    then show ?thesis
      using 1 [OF True] ips_loop.simps [of num msk out] True
      by (simp add: comp_def add.assoc del: upt_Suc)
  next
    case False
    then have "unat msk = 2 ^ 32 - 1"
      using unsigned_less [of msk, where ?'a = nat] by (simp add: word_less_nat_alt)
    then show ?thesis
      using ips_loop.simps [of num msk out] False by simp
  qed
qed

text \<open>Reading back the four bytes that \<open>PutUint32\<close> wrote gives the number.\<close>

lemma Uint32_PutUint32: "Uint32 (PutUint32 v) = Some v"
  unfolding PutUint32_def
  apply simp
  apply (rule bit_word_eqI)
  subgoal for n
    using linorder_not_less [of n 8] linorder_not_less [of n 16] linorder_not_less [of n 24]
    by (cases "n < 8"; cases "n < 16"; cases "n < 24") (auto simp add: bit_simps)
  done

lemma length_PutUint32: "length (PutUint32 v) = 4"
  by (simp add: PutUint32_def)

lemma and_mask_no_wrap:
  fixes a m :: uint32
  assumes "k < 2 ^ 32 - 1 - unat m"
  shows "unat ((a AND m) + of_nat k) = unat (a AND m) + k"
proof -
  have "a AND m \<le> m" by (rule word_and_le1)
  then have "unat (a AND m) \<le> unat m" by (simp add: word_le_nat_alt)
  with assms have "unat (a AND m) + k < 2 ^ 32" by simp
  then show ?thesis
    by (simp add: unat_word_ariths unat_of_nat)
qed

text \<open>On a /24 the first three bytes stay and the last byte counts up.\<close>

lemma slash24_mask: "(0xffffff00 :: uint32) = NOT (mask 8)"
  by (simp add: mask_eq_exp_minus_1)

lemma slash24_elem_byte:
  fixes a b c d kb :: byte
  shows "PutUint32 (((ucast d OR push_bit 8 (ucast c) OR push_bit 16 (ucast b) OR push_bit 24 (ucast a)) AND 0xffffff00) + ucast kb)
     = [a, b, c, kb]"
proof -
  let ?x = "(ucast d OR push_bit 8 (ucast c) OR push_bit 16 (ucast b) OR push_bit 24 (ucast a)) :: uint32"
  let ?net = "(push_bit 8 (ucast c) OR push_bit 16 (ucast b) OR push_bit 24 (ucast a)) :: uint32"
  have net: "?x AND 0xffffff00 = ?net"
    unfolding slash24_mask
    by (rule bit_word_eqI) (auto simp add: bit_simps dest: bit_imp_le_length)
  have disj: "?net AND ucast kb = 0"
    by (rule bit_word_eqI) (auto simp add: bit_simps dest: bit_imp_le_length)
  have sum: "?net + ucast kb = ?net OR ucast kb"
    by (rule disjunctive_add_eq_or) (rule disj)
  have b3: "ucast (?net OR ucast kb) = kb"
    by (rule bit_word_eqI) (auto simp add: bit_simps dest: bit_imp_le_length)
  have b2: "ucast (drop_bit 8 (?net OR ucast kb)) = c"
    by (rule bit_word_eqI) (auto simp add: bit_simps dest: bit_imp_le_length)
  have b1: "ucast (drop_bit 16 (?net OR ucast kb)) = b"
    by (rule bit_word_eqI) (auto simp add: bit_simps dest: bit_imp_le_length)
  have b0: "ucast (drop_bit 24 (?net OR ucast kb)) = a"
    by (rule bit_word_eqI) (auto simp add: bit_simps dest: bit_imp_le_length)
  show ?thesis
    unfolding net sum PutUint32_def using b0 b1 b2 b3 by simp
qed

lemma slash24_elem:
  fixes a b c d :: byte
  assumes "k < 256"
  shows "PutUint32 (((ucast d OR push_bit 8 (ucast c) OR push_bit 16 (ucast b) OR push_bit 24 (ucast a)) AND 0xffffff00) + of_nat k)
     = [a, b, c, of_nat k]"
proof -
  have "(of_nat k :: uint32) = ucast (of_nat k :: byte)"
    using assms by (simp add: unsigned_of_nat take_bit_nat_eq_self)
  then show ?thesis
    using slash24_elem_byte [of d c b a "of_nat k"] by simp
qed

lemma ips_closed:
  assumes "Uint32 ip = Some num" and "Uint32 mk = Some msk"
  shows "ips \<lparr>IP = ip, Mask = mk\<rparr> =
    Some (map (\<lambda>k. PutUint32 ((num AND msk) + of_nat k)) [0..<2 ^ 32 - 1 - unat msk])"
  using assms by (simp add: ips_def ips_loop_closed)

lemma Uint32_four: "Uint32 [a, b, c, d] = Some (ucast d OR push_bit 8 (ucast c) OR push_bit 16 (ucast b) OR push_bit 24 (ucast a))"
  by simp

lemma Uint32_slash24: "Uint32 [255, 255, 255, 0] = Some 0xffffff00"
  by simp

lemma ips_slash24:
  "ips \<lparr>IP = [a, b, c, d], Mask = [255, 255, 255, 0]\<rparr> = Some (map (\<lambda>k. [a, b, c, of_nat k]) [0..<255])"
proof -
  have "map (\<lambda>k. PutUint32 (((ucast d OR push_bit 8 (ucast c) OR push_bit 16 (ucast b) OR push_bit 24 (ucast a)) AND 0xffffff00) + of_nat k)) [0..<255]
      = map (\<lambda>k. [a, b, c, of_nat k]) [0..<255]"
    by (rule map_cong) (simp_all add: slash24_elem)
  then show ?thesis
    using ips_closed [OF Uint32_four Uint32_slash24, of a b c d] by simp
qed

lemma broadcast_excluded: "[a, b, c, 255 :: byte] \<notin> set (map (\<lambda>k. [a, b, c, of_nat k]) [0..<255])"
proof
  assume "[a, b, c, 255 :: byte] \<in> set (map (\<lambda>k. [a, b, c, of_nat k]) [0..<255])"
  then obtain k :: nat where k: "k < 255" and eq: "(of_nat k :: byte) = 255"
    by auto
  from k have "unat (of_nat k :: byte) = k"
    by (simp add: unat_of_nat)
  with eq k show False by simp
qed

text \<open>
  C1. For the mask 255.255.255.0 and the base 192.168.1.0 (and for any other base address
  \<open>a.b.c.d\<close>) \<open>ips\<close> yields exactly the 255 addresses \<open>a.b.c.0\<close> to \<open>a.b.c.254\<close> in
  ascending order: the network address is the first one and the broadcast address
  \<open>a.b.c.255\<close> is not among them. In general, for an address and a mask of at least four
  bytes, the sequence is the big-endian form of the numbers \<open>(address AND mask) + k\<close> for
  \<open>k = 0, 1, ...\<close>, and these numbers ascend by one without wrapping around.
\<close>

theorem ips_ascending_from_network:
  assumes "Uint32 ip = Some num" and "Uint32 mk = Some msk"
  shows "ips \<lparr>IP = [192, 168, 1, 0], Mask = [255, 255, 255, 0]\<rparr>
           = Some (map (\<lambda>k. [192, 168, 1, of_nat k]) [0..<255])
       \<and> ips \<lparr>IP = [a, b, c, d], Mask = [255, 255, 255, 0]\<rparr>
           = Some (map (\<lambda>k. [a, b, c, of_nat k]) [0..<255])
       \<and> [a, b, c, 255] \<notin> set (map (\<lambda>k. [a, b, c, of_nat k]) [0..<255])
       \<and> ips \<lparr>IP = ip, Mask = mk\<rparr>
           = Some (map (\<lambda>k. PutUint32 ((num AND msk) + of_nat k)) [0..<2 ^ 32 - 1 - unat msk])
       \<and> (\<forall>k < 2 ^ 32 - 1 - unat msk.
             Uint32 (PutUint32 ((num AND msk) + of_nat k)) = Some ((num AND msk) + of_nat k)
           \<and> unat ((num AND msk) + of_nat k) = unat (num AND msk) + k)"
  using ips_slash24 [of 192 168 1 0] ips_slash24 [of a b c d] broadcast_excluded [of a b c]
    ips_closed [OF assms] and_mask_no_wrap [of _ msk num] Uint32_PutUint32
  by simp

theorem ips_ascending_from_network_witness:
  "Uint32 [10, 0, 0, 5] = Some 0x0A000005 \<and> Uint32 [255, 255, 255, 252] = Some 0xFFFFFFFC
   \<and> ips \<lparr>IP = [10, 0, 0, 5], Mask = [255, 255, 255, 252]\<rparr>
        = Some [[10, 0, 0, 4], [10, 0, 0, 5], [10, 0, 0, 6]]"
proof -
  have ip: "Uint32 [10, 0, 0, 5] = Some 0x0A000005" by simp
  have mk: "Uint32 [255, 255, 255, 252] = Some 0xFFFFFFFC" by simp
  have "[0..<3] = [0, 1, 2]" by (simp add: upt_rec)
  then show ?thesis
    using ip mk ips_ascending_from_network [OF ip mk] by (simp add: PutUint32_def)
qed

section \<open>Termination and size of the enumeration\<close>

lemma To4_length: "To4 ip = Some ip4 \<Longrightarrow> length ip4 = 4"
  by (auto simp add: To4_def split: if_splits)

lemma select_addr_lengths:
  "select_addr addrs = Some (Some n) \<Longrightarrow> length (IP n) = 4 \<and> length (Mask n) = 4"
  by (induction addrs rule: select_addr.induct)
     (auto split: option.splits if_splits dest: To4_length)

lemma Scan_resolve_Resolved:
  assumes "Scan_resolve a = Resolved n"
  shows "length (IP n) = 4" and "length (Mask n) = 4" and "HardwareAddr (iface a) \<noteq> []"
    and "IP n ! 0 \<noteq> 127" and "Mask n ! 0 = 0xff" and "Mask n ! 1 = 0xff"
    and "\<exists>addrs. Addrs (iface a) = Inr addrs \<and> select_addr addrs = Some (Some n)"
  using assms
  by (auto simp add: Scan_resolve_def split: sum.splits option.splits if_splits
      dest: select_addr_lengths)

lemma length4_cases: "length bs = 4 \<Longrightarrow> \<exists>b0 b1 b2 b3. bs = [b0, b1, b2, b3]"
  by (cases bs; cases "tl bs"; cases "tl (tl bs)"; cases "tl (tl (tl bs))") auto

lemma Uint32_total: "length bs = 4 \<Longrightarrow> \<exists>v. Uint32 bs = Some v"
  using length4_cases [of bs] by auto

lemma ips_length:
  assumes "Uint32 ip = Some num" and "Uint32 mk = Some msk"
  shows "\<exists>out. ips \<lparr>IP = ip, Mask = mk\<rparr> = Some out \<and> length out = 2 ^ 32 - 1 - unat msk"
  using ips_closed [OF assms] by simp

lemma hi16: "(push_bit 16 (ucast (255::byte)) OR push_bit 24 (ucast (255::byte)) :: uint32) = 0xffff0000"
  by simp

lemma Uint32_slash16:
  assumes "Uint32 [255, 255, c, d] = Some msk"
  shows "2 ^ 32 - 1 - unat msk \<le> 65535"
proof -
  have "msk = (ucast d OR push_bit 8 (ucast c)) OR (push_bit 16 (ucast (255::byte)) OR push_bit 24 (ucast (255::byte)))"
    using assms by (simp only: Uint32.simps option.inject or.assoc)
  then have "msk = (ucast d OR push_bit 8 (ucast c)) OR 0xffff0000"
    by (simp only: hi16)
  then have "0xffff0000 \<le> msk"
    by (simp only: le_word_or1)
  then have "unat (0xffff0000 :: uint32) \<le> unat msk"
    by (simp only: word_le_nat_alt)
  moreover have "unat (0xffff0000 :: uint32) = 4294901760"
    by simp
  ultimately have "4294901760 \<le> unat msk" by simp
  then show ?thesis by simp
qed

lemma unat_Uint32:
  fixes b0 b1 b2 b3 :: byte
  assumes "Uint32 [b0, b1, b2, b3] = Some v"
  shows "unat v = unat b0 * 2 ^ 24 + unat b1 * 2 ^ 16 + unat b2 * 2 ^ 8 + unat b3"
proof -
  let ?c = "push_bit 16 (unat b1) OR push_bit 24 (unat b0)"
  let ?b = "push_bit 8 (unat b2) OR ?c"
  have v: "v = ucast b3 OR push_bit 8 (ucast b2) OR push_bit 16 (ucast b1) OR push_bit 24 (ucast b0)"
    using assms by simp
  have "unat v = unat b3 OR ?b"
    unfolding v
    by (rule bit_eqI) (auto simp add: bit_simps dest: bit_imp_le_length)
  moreover have "push_bit 16 (unat b1) AND push_bit 24 (unat b0) = 0"
    by (rule bit_eqI) (auto simp add: bit_simps dest: bit_imp_le_length)
  then have "?c = push_bit 16 (unat b1) + push_bit 24 (unat b0)"
    by (simp add: disjunctive_add_eq_or)
  moreover have "push_bit 8 (unat b2) AND ?c = 0"
    by (rule bit_eqI) (auto simp add: bit_simps dest: bit_imp_le_length)
  then have "?b = push_bit 8 (unat b2) + ?c"
    by (simp add: disjunctive_add_eq_or)
  moreover have "unat b3 AND ?b = 0"
    by (rule bit_eqI) (auto simp add: bit_simps dest: bit_imp_le_length)
  then have "unat b3 OR ?b = unat b3 + ?b"
    by (simp add: disjunctive_add_eq_or)
  ultimately show ?thesis
    by (simp add: push_bit_eq_mult)
qed

lemma Uint32_ones: "Uint32 [255, 255, 255, 255] = Some 0xffffffff"
  by simp

lemma ips_slash32: "ips \<lparr>IP = ip, Mask = [255, 255, 255, 255]\<rparr> = (case Uint32 ip of None \<Rightarrow> None | Some num \<Rightarrow> Some [])"
proof (cases "Uint32 ip")
  case None
  then show ?thesis by (simp add: ips_def)
next
  case (Some num)
  from ips_closed [OF Some Uint32_ones] Some show ?thesis by simp
qed

lemma ips_net29:
  "ips net29 = Some [[10, 0, 0, 8], [10, 0, 0, 9], [10, 0, 0, 10], [10, 0, 0, 11],
                     [10, 0, 0, 12], [10, 0, 0, 13], [10, 0, 0, 14]]"
proof -
  have ip: "Uint32 [10, 0, 0, 10] = Some 0x0A00000A" by simp
  have mk: "Uint32 [255, 255, 255, 248] = Some 0xFFFFFFF8" by simp
  have "[0..<7] = [0, 1, 2, 3, 4, 5, 6]" by (simp add: upt_rec)
  then show ?thesis
    using ips_closed [OF ip mk] by (simp add: PutUint32_def net29_def)
qed

section \<open>Properties of \<^verbatim>\<open>IfaceToName\<close>\<close>

lemma append_names_eq: "append_names r ifaces = r @ map Name ifaces"
  by (induction ifaces arbitrary: r) simp_all

lemma InterfaceByName_found:
  "(\<exists>ifi. InterfaceByName (Inr ift) name = Inr ifi) \<longleftrightarrow> name \<noteq> [] \<and> name \<in> Name ` set ift"
  by (auto simp add: InterfaceByName_def find_None_iff find_Some_iff split: option.splits)

lemma InterfaceByName_total:
  "(\<exists>e. InterfaceByName host name = Inl e) \<longleftrightarrow> \<not> (\<exists>ifi. InterfaceByName host name = Inr ifi)"
  by (cases "InterfaceByName host name") auto

lemma check_names_all:
  "\<forall>n \<in> set names. \<exists>ifi. InterfaceByName host n = Inr ifi \<Longrightarrow> check_names host r names = (r, None)"
  by (induction names) auto

lemma check_names_first_bad:
  "\<forall>n \<in> set pre. \<exists>ifi. InterfaceByName host n = Inr ifi \<Longrightarrow>
   \<exists>e. InterfaceByName host bad = Inl e \<Longrightarrow>
   check_names host r (pre @ bad # post) = (r, Some (Err (''interface '' @ bad @ '': unkown'')))"
  by (induction pre) auto

lemma check_names_fst: "fst (check_names host r names) = r"
  by (induction names) (auto split: sum.splits)

lemma check_names_rejects:
  "bad \<in> set names \<Longrightarrow> \<exists>e. InterfaceByName host bad = Inl e \<Longrightarrow> snd (check_names host r names) \<noteq> None"
  by (induction names) (auto split: sum.splits)

lemma Split_nonempty: "Split s sep \<noteq> []"
  by (induction s) (auto split: list.splits)

lemma Join_Split: "Join (Split s sep) sep = s"
proof (induction s)
  case Nil
  then show ?case by simp
next
  case (Cons c cs)
  obtain p ps where sp: "Split cs sep = p # ps"
    using Split_nonempty [of cs sep] by (cases "Split cs sep") auto
  with Cons show ?case
    by (cases ps) auto
qed

lemma Split_no_sep: "piece \<in> set (Split s sep) \<Longrightarrow> sep \<notin> set piece"
proof (induction s arbitrary: piece)
  case Nil
  then show ?case by simp
next
  case (Cons c cs)
  obtain p ps where sp: "Split cs sep = p # ps"
    using Split_nonempty [of cs sep] by (cases "Split cs sep") auto
  with Cons show ?case
    by (auto split: if_splits)
qed

lemma IfaceToName_fst: "names \<noteq> ''all'' \<Longrightarrow> fst (IfaceToName host names) = Split names (CHR '','')"
  by (simp add: IfaceToName_def Let_def check_names_fst)

text \<open>
  C8. \<open>IfaceToName\<close> maps the input \<open>all\<close> to the names of the interfaces the host
  reports, in the host's order (and to the host's error when the enumeration fails). Any
  other input is split at the commas; when every piece names an interface of the host the
  pieces are returned without error, and otherwise the call fails with the error that
  names the first piece that is not an interface of the host.
\<close>

theorem IfaceToName_all_or_validated:
  "IfaceToName (Inr ift) ''all'' = (map Name ift, None)
   \<and> IfaceToName (Inl e) ''all'' = ([], Some e)
   \<and> (names \<noteq> ''all'' \<and> (\<forall>n \<in> set (Split names (CHR '','')). n \<noteq> [] \<and> n \<in> Name ` set ift)
        \<longrightarrow> IfaceToName (Inr ift) names = (Split names (CHR '',''), None))
   \<and> (names \<noteq> ''all'' \<and> Split names (CHR '','') = pre @ bad # post
        \<and> (\<forall>n \<in> set pre. n \<noteq> [] \<and> n \<in> Name ` set ift) \<and> (bad = [] \<or> bad \<notin> Name ` set ift)
        \<longrightarrow> IfaceToName (Inr ift) names
              = (Split names (CHR '',''), Some (Err (''interface '' @ bad @ '': unkown''))))"
proof (intro conjI impI)
  show "IfaceToName (Inr ift) ''all'' = (map Name ift, None)"
    by (simp add: IfaceToName_def Interfaces_def append_names_eq)
next
  show "IfaceToName (Inl e) ''all'' = ([], Some e)"
    by (simp add: IfaceToName_def Interfaces_def)
next
  assume a: "names \<noteq> ''all'' \<and> (\<forall>n \<in> set (Split names (CHR '','')). n \<noteq> [] \<and> n \<in> Name ` set ift)"
  then have "\<forall>n \<in> set (Split names (CHR '','')). \<exists>ifi. InterfaceByName (Inr ift) n = Inr ifi"
    by (simp add: InterfaceByName_found)
  then show "IfaceToName (Inr ift) names = (Split names (CHR '',''), None)"
    using a by (simp add: IfaceToName_def Let_def check_names_all)
next
  assume a: "names \<noteq> ''all'' \<and> Split names (CHR '','') = pre @ bad # post
        \<and> (\<forall>n \<in> set pre. n \<noteq> [] \<and> n \<in> Name ` set ift) \<and> (bad = [] \<or> bad \<notin> Name ` set ift)"
  then have pre: "\<forall>n \<in> set pre. \<exists>ifi. InterfaceByName (Inr ift) n = Inr ifi"
    by (simp add: InterfaceByName_found)
  from a have "\<not> (\<exists>ifi. InterfaceByName (Inr ift) bad = Inr ifi)"
    unfolding InterfaceByName_found by blast
  then have bad: "\<exists>e. InterfaceByName (Inr ift) bad = Inl e"
    by (simp add: InterfaceByName_total)
  show "IfaceToName (Inr ift) names
      = (Split names (CHR '',''), Some (Err (''interface '' @ bad @ '': unkown'')))"
    using a check_names_first_bad [OF pre bad, of "pre @ bad # post" post]
    by (simp add: IfaceToName_def Let_def)
qed

theorem IfaceToName_all_or_validated_witness:
  "IfaceToName (Inr [eth0, eth1]) ''all'' = ([''eth0'', ''eth1''], None)
   \<and> IfaceToName (Inr [eth0, eth1]) ''eth1,eth0'' = ([''eth1'', ''eth0''], None)
   \<and> IfaceToName (Inr [eth0, eth1]) ''eth0,eth2,eth3''
        = ([''eth0'', ''eth2'', ''eth3''], Some (Err ''interface eth2: unkown''))"
proof -
  have s1: "Split ''eth1,eth0'' (CHR '','') = [''eth1'', ''eth0'']" by simp
  have s2: "Split ''eth0,eth2,eth3'' (CHR '','') = [''eth0''] @ ''eth2'' # [''eth3'']" by simp
  show ?thesis
    using IfaceToName_all_or_validated [where ift = "[eth0, eth1]" and names = "''eth1,eth0''"]
      IfaceToName_all_or_validated [where ift = "[eth0, eth1]" and names = "''eth0,eth2,eth3''"
        and pre = "[''eth0'']" and bad = "''eth2''" and post = "[''eth3'']"]
      s1 s2
    by (simp add: eth0_def eth1_def)
qed

text \<open>
  C10. For an input other than \<open>all\<close> the returned slice is the comma-split of the input
  as it is (joining it with commas gives the input back): order, duplicates and blanks are
  kept. So \<open>eth0, eth1\<close> is rejected unless an interface is named \<open> eth1\<close> with the
  leading blank, and the empty input is rejected with an error that names the empty piece.
\<close>

theorem IfaceToName_no_normalization:
  "(names \<noteq> ''all'' \<longrightarrow>
      fst (IfaceToName host names) = Split names (CHR '','')
      \<and> Join (fst (IfaceToName host names)) (CHR '','') = names)
   \<and> fst (IfaceToName host ''eth0, eth1'') = [''eth0'', '' eth1'']
   \<and> ('' eth1'' \<notin> Name ` set ift \<longrightarrow> snd (IfaceToName (Inr ift) ''eth0, eth1'') \<noteq> None)
   \<and> (''eth0'' \<in> Name ` set ift \<and> '' eth1'' \<notin> Name ` set ift \<longrightarrow>
        snd (IfaceToName (Inr ift) ''eth0, eth1'') = Some (Err ''interface  eth1: unkown''))
   \<and> (''eth0'' \<in> Name ` set ift \<and> '' eth1'' \<in> Name ` set ift \<longrightarrow>
        IfaceToName (Inr ift) ''eth0, eth1'' = ([''eth0'', '' eth1''], None))
   \<and> IfaceToName host '''' = ([''''], Some (Err ''interface : unkown''))"
proof (intro conjI impI)
  assume "names \<noteq> ''all''"
  then show "fst (IfaceToName host names) = Split names (CHR '','')"
    by (rule IfaceToName_fst)
  then show "Join (fst (IfaceToName host names)) (CHR '','') = names"
    by (simp add: Join_Split)
next
  show "fst (IfaceToName host ''eth0, eth1'') = [''eth0'', '' eth1'']"
    by (simp add: IfaceToName_fst)
next
  assume "'' eth1'' \<notin> Name ` set ift"
  then have "\<not> (\<exists>ifi. InterfaceByName (Inr ift) '' eth1'' = Inr ifi)"
    unfolding InterfaceByName_found by simp
  then have "\<exists>e. InterfaceByName (Inr ift) '' eth1'' = Inl e"
    by (simp add: InterfaceByName_total)
  then have "snd (check_names (Inr ift) [''eth0'', '' eth1''] [''eth0'', '' eth1'']) \<noteq> None"
    by (rule check_names_rejects [rotated]) simp
  then show "snd (IfaceToName (Inr ift) ''eth0, eth1'') \<noteq> None"
    by (simp add: IfaceToName_def Let_def)
next
  assume a: "''eth0'' \<in> Name ` set ift \<and> '' eth1'' \<notin> Name ` set ift"
  then have pre: "\<forall>n \<in> set [''eth0'']. \<exists>ifi. InterfaceByName (Inr ift) n = Inr ifi"
    by (simp add: InterfaceByName_found)
  from a have "\<not> (\<exists>ifi. InterfaceByName (Inr ift) '' eth1'' = Inr ifi)"
    unfolding InterfaceByName_found by simp
  then have bad: "\<exists>e. InterfaceByName (Inr ift) '' eth1'' = Inl e"
    by (simp add: InterfaceByName_total)
  show "snd (IfaceToName (Inr ift) ''eth0, eth1'') = Some (Err ''interface  eth1: unkown'')"
    using check_names_first_bad [OF pre bad, of "[''eth0'', '' eth1'']" "[]"]
    by (simp add: IfaceToName_def Let_def)
next
  assume "''eth0'' \<in> Name ` set ift \<and> '' eth1'' \<in> Name ` set ift"
  then have "\<forall>n \<in> set [''eth0'', '' eth1'']. \<exists>ifi. InterfaceByName (Inr ift) n = Inr ifi"
    by (simp add: InterfaceByName_found)
  then have "check_names (Inr ift) [''eth0'', '' eth1''] [''eth0'', '' eth1''] = ([''eth0'', '' eth1''], None)"
    by (rule check_names_all)
  then show "IfaceToName (Inr ift) ''eth0, eth1'' = ([''eth0'', '' eth1''], None)"
    by (simp add: IfaceToName_def Let_def)
next
  show "IfaceToName host '''' = ([''''], Some (Err ''interface : unkown''))"
    by (simp add: IfaceToName_def InterfaceByName_def)
qed

theorem IfaceToName_no_normalization_witness:
  "''eth0,eth0, eth1'' \<noteq> ''all''
   \<and> fst (IfaceToName (Inr [eth0, eth1]) ''eth0,eth0, eth1'') = [''eth0'', ''eth0'', '' eth1'']
   \<and> '' eth1'' \<notin> Name ` set [eth0, eth1]
   \<and> IfaceToName (Inr [eth0, eth1]) ''eth0, eth1''
        = ([''eth0'', '' eth1''], Some (Err ''interface  eth1: unkown''))
   \<and> IfaceToName (Inr [eth0, eth1_spaced]) ''eth0, eth1'' = ([''eth0'', '' eth1''], None)"
  using IfaceToName_no_normalization [where names = "''eth0,eth0, eth1''" and host = "Inr [eth0, eth1]" and ift = "[eth0, eth1]"]
    IfaceToName_no_normalization [where names = "''eth0,eth0, eth1''" and host = "Inr [eth0, eth1]" and ift = "[eth0, eth1_spaced]"]
  by (simp add: eth0_def eth1_def eth1_spaced_def prod_eq_iff)

section \<open>Properties of the validation prologue\<close>

lemma Scan_invalid_iff:
  "Scan_resolve a = Failed err \<Longrightarrow> Scan a w r sent \<longleftrightarrow> r = ([], Some err) \<and> sent = []"
  by (auto simp add: Scan.simps)

lemma Scan_open_failed_iff:
  "Scan_resolve a = Resolved addr \<Longrightarrow> OpenLive w (Name (iface a)) = Inl err \<Longrightarrow>
   Scan a w r sent \<longleftrightarrow> r = ([], Some err) \<and> sent = []"
  by (auto simp add: Scan.simps)

lemma Scan_ran_iff:
  "Scan_resolve a = Resolved addr \<Longrightarrow> OpenLive w (Name (iface a)) = Inr dev \<Longrightarrow>
   Scan a w r sent \<longleftrightarrow>
     (\<exists>s. (step (iface a) addr)\<^sup>*\<^sup>* (start \<lparr>wres = dev, wlog = []\<rparr> (Packets w)) s
        \<and> coord s = C_returned r \<and> sent = wlog (handle s))"
  by (auto simp add: Scan.simps)

lemma resolve_checks_in_order:
  assumes "Addrs (iface a) = Inr addrs" and "select_addr addrs = Some sel"
  shows "HardwareAddr (iface a) = [] \<Longrightarrow> Scan_resolve a = Failed (Err ''Could not obtain MAC address'')"
    and "HardwareAddr (iface a) \<noteq> [] \<Longrightarrow> sel = None \<Longrightarrow>
         Scan_resolve a = Failed (Err ''no good IP network found'')"
    and "HardwareAddr (iface a) \<noteq> [] \<Longrightarrow> sel = Some n \<Longrightarrow> IP n ! 0 = 127 \<Longrightarrow>
         Scan_resolve a = Failed (Err ''skipping localhost'')"
    and "HardwareAddr (iface a) \<noteq> [] \<Longrightarrow> sel = Some n \<Longrightarrow> IP n ! 0 \<noteq> 127 \<Longrightarrow>
         Mask n ! 0 \<noteq> 0xff \<or> Mask n ! 1 \<noteq> 0xff \<Longrightarrow>
         Scan_resolve a = Failed (Err ''mask means network is too large'')"
    and "HardwareAddr (iface a) \<noteq> [] \<Longrightarrow> sel = Some n \<Longrightarrow> IP n ! 0 \<noteq> 127 \<Longrightarrow>
         Mask n ! 0 = 0xff \<Longrightarrow> Mask n ! 1 = 0xff \<Longrightarrow> Scan_resolve a = Resolved n"
  using assms by (simp_all add: Scan_resolve_def)

lemma resolve_bare: "Scan_resolve bare = Failed (Err ''Could not obtain MAC address'')"
  by (simp add: bare_def Scan_resolve_def)

lemma resolve_nic16:
  "Scan_resolve (nic mac0 [172, 16, 0, 9] [255, 255, 0, 0])
     = Resolved \<lparr>IP = [172, 16, 0, 9], Mask = [255, 255, 0, 0]\<rparr>"
  by (simp add: nic_def mac0_def Scan_resolve_def To4_def)

lemma resolve_nic29: "Scan_resolve nic29 = Resolved net29"
  by (simp add: nic29_def nic_def net29_def mac0_def Scan_resolve_def To4_def)

text \<open>
  C2, as the code has it. When \<^verbatim>\<open>Addrs()\<close> succeeds and the selection does not panic,
  the checks run in this order, each with its own error: first the empty hardware address
  (\<open>Could not obtain MAC address\<close>), second no IPv4 address (\<open>no good IP network found\<close>),
  third a selected address with first octet 127 (\<open>skipping localhost\<close>), fourth a mask
  whose first two octets are not both \<open>0xff\<close> (\<open>mask means network is too large\<close>). The four
  errors are distinct. An interface whose selected address has first octet 127 fails, and
  \<open>Scan\<close> returns that failure with an empty table and no frame handed to a handle.
\<close>

theorem Scan_resolve_order:
  assumes "Addrs (iface a) = Inr addrs" and "select_addr addrs = Some sel"
  shows "(HardwareAddr (iface a) = [] \<longrightarrow>
            Scan_resolve a = Failed (Err ''Could not obtain MAC address''))
     \<and> (HardwareAddr (iface a) \<noteq> [] \<and> sel = None \<longrightarrow>
            Scan_resolve a = Failed (Err ''no good IP network found''))
     \<and> (HardwareAddr (iface a) \<noteq> [] \<and> sel = Some n \<and> IP n ! 0 = 127 \<longrightarrow>
            Scan_resolve a = Failed (Err ''skipping localhost''))
     \<and> (HardwareAddr (iface a) \<noteq> [] \<and> sel = Some n \<and> IP n ! 0 \<noteq> 127
          \<and> (Mask n ! 0 \<noteq> 0xff \<or> Mask n ! 1 \<noteq> 0xff) \<longrightarrow>
            Scan_resolve a = Failed (Err ''mask means network is too large''))
     \<and> distinct [Err ''Could not obtain MAC address'', Err ''no good IP network found'',
                  Err ''skipping localhost'', Err ''mask means network is too large'']
     \<and> (sel = Some n \<and> IP n ! 0 = 127 \<longrightarrow>
           (\<exists>err. Scan_resolve a = Failed err \<and> Scan a w ([], Some err) [])
           \<and> (\<forall>r sent. Scan a w r sent \<longrightarrow> fst r = [] \<and> snd r \<noteq> None \<and> sent = []))"
proof (intro conjI impI)
  show "distinct [Err ''Could not obtain MAC address'', Err ''no good IP network found'',
                  Err ''skipping localhost'', Err ''mask means network is too large'']"
    by simp
next
  assume lo: "sel = Some n \<and> IP n ! 0 = 127"
  have "\<exists>err. Scan_resolve a = Failed err"
    using lo resolve_checks_in_order(1) [OF assms] resolve_checks_in_order(3) [OF assms, of n]
    by (cases "HardwareAddr (iface a) = []") auto
  then obtain err where f: "Scan_resolve a = Failed err" by blast
  show "\<exists>err. Scan_resolve a = Failed err \<and> Scan a w ([], Some err) []"
    using f Scan_invalid [OF f] by blast
  show "\<forall>r sent. Scan a w r sent \<longrightarrow> fst r = [] \<and> snd r \<noteq> None \<and> sent = []"
    by (simp add: Scan_invalid_iff [OF f])
qed (use resolve_checks_in_order [OF assms] in auto)

theorem Scan_resolve_order_witness:
  "Scan_resolve (nic [] [127, 0, 0, 1] [255, 0, 0, 0]) = Failed (Err ''Could not obtain MAC address'')
   \<and> Scan_resolve bare = Failed (Err ''Could not obtain MAC address'')
   \<and> Scan_resolve \<lparr>iface = (iface bare)\<lparr>HardwareAddr := [2, 0, 0, 0, 0, 1]\<rparr>\<rparr>
        = Failed (Err ''no good IP network found'')
   \<and> Scan_resolve (nic [2, 0, 0, 0, 0, 1] [127, 0, 0, 1] [255, 0, 0, 0]) = Failed (Err ''skipping localhost'')
   \<and> Scan_resolve (nic [2, 0, 0, 0, 0, 1] [10, 0, 0, 5] [255, 0, 0, 0])
        = Failed (Err ''mask means network is too large'')
   \<and> Scan (nic [2, 0, 0, 0, 0, 1] [127, 0, 0, 1] [255, 0, 0, 0]) quiet ([], Some (Err ''skipping localhost'')) []"
proof -
  have sel: "select_addr [IPNetAddr \<lparr>IP = ip, Mask = [255, 0, 0, 0]\<rparr>]
      = (case To4 ip of None \<Rightarrow> Some None | Some ip4 \<Rightarrow> Some (Some \<lparr>IP = ip4, Mask = [255, 0, 0, 0]\<rparr>))" for ip
    by (simp split: option.splits)
  have lo: "select_addr [IPNetAddr \<lparr>IP = [127, 0, 0, 1], Mask = [255, 0, 0, 0]\<rparr>]
      = Some (Some \<lparr>IP = [127, 0, 0, 1], Mask = [255, 0, 0, 0]\<rparr>)"
    by (simp add: sel To4_def)
  have ten: "select_addr [IPNetAddr \<lparr>IP = [10, 0, 0, 5], Mask = [255, 0, 0, 0]\<rparr>]
      = Some (Some \<lparr>IP = [10, 0, 0, 5], Mask = [255, 0, 0, 0]\<rparr>)"
    by (simp add: sel To4_def)
  have none: "select_addr [] = Some None" by simp
  show ?thesis
    using Scan_resolve_order [where a = "nic [] [127, 0, 0, 1] [255, 0, 0, 0]" and w = quiet
        and n = "\<lparr>IP = [127, 0, 0, 1], Mask = [255, 0, 0, 0]\<rparr>", OF _ lo]
      Scan_resolve_order [where a = bare and w = quiet, OF _ none]
      Scan_resolve_order [where a = "\<lparr>iface = (iface bare)\<lparr>HardwareAddr := [2, 0, 0, 0, 0, 1]\<rparr>\<rparr>"
        and w = quiet, OF _ none]
      Scan_resolve_order [where a = "nic [2, 0, 0, 0, 0, 1] [127, 0, 0, 1] [255, 0, 0, 0]" and w = quiet
        and n = "\<lparr>IP = [127, 0, 0, 1], Mask = [255, 0, 0, 0]\<rparr>", OF _ lo]
      Scan_resolve_order [where a = "nic [2, 0, 0, 0, 0, 1] [10, 0, 0, 5] [255, 0, 0, 0]" and w = quiet
        and n = "\<lparr>IP = [10, 0, 0, 5], Mask = [255, 0, 0, 0]\<rparr>", OF _ ten]
    by (auto simp add: nic_def bare_def)
qed

text \<open>
  The order claimed for C2 (no address before no hardware address) fails on an interface
  that has neither: the hardware address error is returned.
\<close>

theorem no_address_first_counterexample:
  "Addrs (iface bare) = Inr [] \<and> select_addr [] = Some None \<and> HardwareAddr (iface bare) = []
   \<and> Scan_resolve bare = Failed (Err ''Could not obtain MAC address'')
   \<and> Scan_resolve bare \<noteq> Failed (Err ''no good IP network found'')"
  by (simp add: bare_def Scan_resolve_def)

text \<open>
  C3. For an interface with a hardware address whose selected address is not a loopback
  address, the range check accepts exactly when the first two mask octets are both
  \<open>0xff\<close>: the mask 255.255.0.0 is accepted, the mask 255.254.0.0 is rejected with
  \<open>mask means network is too large\<close>, and the last two mask octets play no part.
\<close>

theorem Scan_resolve_slash16_boundary:
  assumes "Addrs (iface a) = Inr addrs" and "select_addr addrs = Some (Some n)"
    and "HardwareAddr (iface a) \<noteq> []" and "IP n ! 0 \<noteq> 127"
  shows "Scan_resolve a =
           (if Mask n ! 0 = 0xff \<and> Mask n ! 1 = 0xff then Resolved n
            else Failed (Err ''mask means network is too large''))
     \<and> (Mask n = [255, 255, 0, 0] \<longrightarrow> Scan_resolve a = Resolved n)
     \<and> (Mask n = [255, 254, 0, 0] \<longrightarrow>
           Scan_resolve a = Failed (Err ''mask means network is too large''))"
  using assms by (simp add: Scan_resolve_def)

theorem Scan_resolve_slash16_boundary_witness:
  "Scan_resolve (nic [2, 0, 0, 0, 0, 1] [172, 16, 0, 9] [255, 255, 0, 0])
     = Resolved \<lparr>IP = [172, 16, 0, 9], Mask = [255, 255, 0, 0]\<rparr>
   \<and> Scan_resolve (nic [2, 0, 0, 0, 0, 1] [172, 16, 0, 9] [255, 254, 0, 0])
     = Failed (Err ''mask means network is too large'')
   \<and> Scan_resolve (nic [2, 0, 0, 0, 0, 1] [172, 16, 0, 9] [255, 255, 128, 7])
     = Resolved \<lparr>IP = [172, 16, 0, 9], Mask = [255, 255, 128, 7]\<rparr>"
proof -
  have sel: "select_addr [IPNetAddr \<lparr>IP = [172, 16, 0, 9], Mask = [m0, m1, m2, m3]\<rparr>]
      = Some (Some \<lparr>IP = [172, 16, 0, 9], Mask = [m0, m1, m2, m3]\<rparr>)" for m0 m1 m2 m3
    by (simp add: To4_def)
  show ?thesis
    using Scan_resolve_slash16_boundary [of "nic [2, 0, 0, 0, 0, 1] [172, 16, 0, 9] [255, 255, 0, 0]", OF _ sel]
      Scan_resolve_slash16_boundary [of "nic [2, 0, 0, 0, 0, 1] [172, 16, 0, 9] [255, 254, 0, 0]", OF _ sel]
      Scan_resolve_slash16_boundary [of "nic [2, 0, 0, 0, 0, 1] [172, 16, 0, 9] [255, 255, 128, 7]", OF _ sel]
    by (simp add: nic_def)
qed

section \<open>Properties of the concurrent phase\<close>

text \<open>
  The table is always what the listener made of a prefix of the delivered packets.
\<close>

lemma received_0: "received ifc packets 0 = []"
  by (simp add: received_def)

lemma received_Suc:
  assumes "drop n packets = packet # rest"
  shows "received ifc packets (Suc n) = readARP_packet ifc (received ifc packets n) packet"
    and "drop (Suc n) packets = rest" and "Suc n \<le> length packets"
proof -
  from assms have n: "n < length packets"
    by (cases "n < length packets") auto
  then have "packets ! n = packet"
    using assms by (simp add: hd_drop_conv_nth [symmetric])
  with n show "received ifc packets (Suc n) = readARP_packet ifc (received ifc packets n) packet"
    by (simp add: received_def take_Suc_conv_app_nth)
  from assms show "drop (Suc n) packets = rest"
    by (metis drop_Suc list.sel(3) tl_drop)
  from n show "Suc n \<le> length packets" by simp
qed

lemma run_received:
  assumes "(step ifc addr)\<^sup>*\<^sup>* (start h packets) s"
  shows "\<exists>n \<le> length packets. inq s = drop n packets \<and> at s = received ifc packets n"
  using assms
proof (induction rule: rtranclp_induct)
  case base
  have "inq (start h packets) = drop 0 packets \<and> at (start h packets) = received ifc packets 0"
    by (simp add: start_def received_def)
  then show ?case by blast
next
  case (step s s')
  then obtain n where n: "n \<le> length packets" "inq s = drop n packets" "at s = received ifc packets n"
    by blast
  from step.hyps(2) show ?case
  proof (cases rule: step.cases)
    case (receive packet rest)
    with n have d: "drop n packets = packet # rest" by simp
    have "inq s' = drop (Suc n) packets \<and> at s' = received ifc packets (Suc n)"
      using receive n received_Suc(1) [OF d, of ifc] received_Suc(2) [OF d] by simp
    with received_Suc(3) [OF d] show ?thesis by blast
  qed (use n in auto)
qed

lemma coord_inv_start: "coord_inv h ifc addr packets (start h packets)"
  by (simp add: coord_inv_def start_def)

lemma coord_inv_step:
  assumes "coord_inv h ifc addr packets s" and "step ifc addr s s'"
    and "\<exists>n \<le> length packets. at s = received ifc packets n"
  shows "coord_inv h ifc addr packets s'"
  using assms(2)
proof (cases rule: step.cases)
  case (receive packet rest)
  with assms(1) show ?thesis
    by (auto simp add: coord_inv_def read_inv_def split: coord_pc.splits)
next
  case (observe_close)
  with assms(1) show ?thesis
    by (auto simp add: coord_inv_def read_inv_def split: coord_pc.splits)
qed (use assms(1,3) in \<open>auto simp add: coord_inv_def read_inv_def\<close>)

lemma run_coord_inv:
  assumes "(step ifc addr)\<^sup>*\<^sup>* (start h packets) s"
  shows "coord_inv h ifc addr packets s"
  using assms
proof (induction rule: rtranclp_induct)
  case base
  show ?case by (rule coord_inv_start)
next
  case (step s s')
  from run_received [OF step.hyps(1)]
  have "\<exists>n \<le> length packets. at s = received ifc packets n" by blast
  then show ?case
    by (rule coord_inv_step [OF step.IH step.hyps(2)])
qed

text \<open>
The listener can take any number of the packets before the coordinator moves.
\<close>

lemma run_receive:
  assumes "n \<le> length packets"
  shows "(step ifc addr)\<^sup>*\<^sup>* (start h packets)
     ((start h packets)\<lparr>at := received ifc packets n, inq := drop n packets\<rparr>)"
  using assms
proof (induction n)
  case 0
  have "(start h packets)\<lparr>at := received ifc packets 0, inq := drop 0 packets\<rparr> = start h packets"
    by (simp add: start_def received_0)
  then show ?case by simp
next
  case (Suc n)
  let ?s = "(start h packets)\<lparr>at := received ifc packets n, inq := drop n packets\<rparr>"
  from Suc.prems have d: "drop n packets = packets ! n # drop (Suc n) packets"
    by (simp add: Cons_nth_drop_Suc)
  have "step ifc addr ?s (?s\<lparr>at := readARP_packet ifc (at ?s) (packets ! n), inq := drop (Suc n) packets\<rparr>)"
    by (rule step.receive) (simp_all add: start_def d [symmetric])
  moreover have "?s\<lparr>at := readARP_packet ifc (at ?s) (packets ! n), inq := drop (Suc n) packets\<rparr>
      = (start h packets)\<lparr>at := received ifc packets (Suc n), inq := drop (Suc n) packets\<rparr>"
    using received_Suc(1) [OF d, of ifc] by simp
  ultimately show ?case
    using Suc by (simp del: drop_Suc)
qed

text \<open>
  A run along the success path (writes, sleep, rendezvous, read, deferred calls) and one
  along the failure path (failed write, read, deferred calls), after the listener has
  taken \<open>n\<close> packets.
\<close>

lemma run_success:
  assumes w: "writeARP h ifc addr = Some (h', None)" and n: "n \<le> length packets"
  shows "(step ifc addr)\<^sup>*\<^sup>* (start h packets)
     \<lparr>at = received ifc packets n, handle = h', stop_closed = True, inq = drop n packets,
      coord = C_returned (received ifc packets n, None), listener = L_returned\<rparr>"
proof -
  let ?s0 = "(start h packets)\<lparr>at := received ifc packets n, inq := drop n packets\<rparr>"
  let ?s1 = "?s0\<lparr>handle := h', coord := C_sleep\<rparr>"
  let ?s2 = "?s1\<lparr>coord := C_send\<rparr>"
  let ?s3 = "?s2\<lparr>coord := C_return_ok, listener := L_returned\<rparr>"
  let ?s4 = "?s3\<lparr>coord := C_close_stop (at ?s3, None)\<rparr>"
  let ?s5 = "?s4\<lparr>stop_closed := True, coord := C_close_handle (at ?s3, None)\<rparr>"
  let ?s6 = "?s5\<lparr>coord := C_returned (at ?s3, None)\<rparr>"
  have r0: "(step ifc addr)\<^sup>*\<^sup>* (start h packets) ?s0"
    by (rule run_receive [OF n])
  have s1: "step ifc addr ?s0 ?s1"
    by (rule step.write_ok) (simp_all add: start_def w)
  have s2: "step ifc addr ?s1 ?s2"
    by (rule step.sleep) simp
  have s3: "step ifc addr ?s2 ?s3"
    by (rule step.rendezvous) (simp_all add: start_def)
  have s4: "step ifc addr ?s3 ?s4"
    by (rule step.return_ok) simp
  have s5: "step ifc addr ?s4 ?s5"
    by (rule step.close_stop) simp
  have s6: "step ifc addr ?s5 ?s6"
    by (rule step.close_handle) simp
  have run: "(step ifc addr)\<^sup>*\<^sup>* (start h packets) ?s6"
    using r0 s1 s2 s3 s4 s5 s6 by (meson rtranclp.rtrancl_into_rtrancl)
  have eq: "?s6 = \<lparr>at = received ifc packets n, handle = h', stop_closed = True, inq = drop n packets,
      coord = C_returned (received ifc packets n, None), listener = L_returned\<rparr>"
    by (simp add: start_def)
  from run show ?thesis by (simp only: eq)
qed

lemma run_failure:
  assumes w: "writeARP h ifc addr = Some (h', Some err)" and n: "n \<le> length packets"
  shows "(step ifc addr)\<^sup>*\<^sup>* (start h packets)
     \<lparr>at = received ifc packets n, handle = h', stop_closed = True, inq = drop n packets,
      coord = C_returned (received ifc packets n, Some err), listener = L_select\<rparr>"
proof -
  let ?s0 = "(start h packets)\<lparr>at := received ifc packets n, inq := drop n packets\<rparr>"
  let ?s1 = "?s0\<lparr>handle := h', coord := C_return_err err\<rparr>"
  let ?s2 = "?s1\<lparr>coord := C_close_stop (at ?s1, Some err)\<rparr>"
  let ?s3 = "?s2\<lparr>stop_closed := True, coord := C_close_handle (at ?s1, Some err)\<rparr>"
  let ?s4 = "?s3\<lparr>coord := C_returned (at ?s1, Some err)\<rparr>"
  have r0: "(step ifc addr)\<^sup>*\<^sup>* (start h packets) ?s0"
    by (rule run_receive [OF n])
  have s1: "step ifc addr ?s0 ?s1"
    by (rule step.write_err) (simp_all add: start_def w)
  have s2: "step ifc addr ?s1 ?s2"
    by (rule step.return_err) simp
  have s3: "step ifc addr ?s2 ?s3"
    by (rule step.close_stop) simp
  have s4: "step ifc addr ?s3 ?s4"
    by (rule step.close_handle) simp
  have run: "(step ifc addr)\<^sup>*\<^sup>* (start h packets) ?s4"
    using r0 s1 s2 s3 s4 by (meson rtranclp.rtrancl_into_rtrancl)
  have eq: "?s4 = \<lparr>at = received ifc packets n, handle = h', stop_closed = True, inq = drop n packets,
      coord = C_returned (received ifc packets n, Some err), listener = L_select\<rparr>"
    by (simp add: start_def)
  from run show ?thesis by (simp only: eq)
qed

lemma Scan_ran_result:
  assumes "Scan_resolve a = Resolved addr" and "OpenLive w (Name (iface a)) = Inr dev"
    and "Scan a w r sent"
  shows "\<exists>h'. writeARP \<lparr>wres = dev, wlog = []\<rparr> (iface a) addr = Some (h', snd r) \<and> sent = wlog h'"
    and "\<exists>n \<le> length (Packets w). fst r = received (iface a) (Packets w) n"
proof -
  from assms obtain s where
    run: "(step (iface a) addr)\<^sup>*\<^sup>* (start \<lparr>wres = dev, wlog = []\<rparr> (Packets w)) s"
    and r: "coord s = C_returned r" and sent: "sent = wlog (handle s)"
    by (auto simp add: Scan_ran_iff)
  from run_coord_inv [OF run] r
  have inv: "writeARP \<lparr>wres = dev, wlog = []\<rparr> (iface a) addr = Some (handle s, snd r)"
    "read_inv (iface a) (Packets w) r s"
    by (simp_all add: coord_inv_def)
  from inv(1) sent
  show "\<exists>h'. writeARP \<lparr>wres = dev, wlog = []\<rparr> (iface a) addr = Some (h', snd r) \<and> sent = wlog h'"
    by blast
  from inv(2) show "\<exists>n \<le> length (Packets w). fst r = received (iface a) (Packets w) n"
    by (simp add: read_inv_def)
qed

lemma Scan_ran_possible:
  assumes "Scan_resolve a = Resolved addr" and "OpenLive w (Name (iface a)) = Inr dev"
    and "writeARP \<lparr>wres = dev, wlog = []\<rparr> (iface a) addr = Some (h', res)"
    and "n \<le> length (Packets w)"
  shows "Scan a w (received (iface a) (Packets w) n, res) (wlog h')"
proof (cases res)
  case None
  with assms(3) have "writeARP \<lparr>wres = dev, wlog = []\<rparr> (iface a) addr = Some (h', None)" by simp
  from Scan_ran [OF assms(1,2) run_success [OF this assms(4)]] None
  show ?thesis by simp
next
  case (Some err)
  with assms(3) have "writeARP \<lparr>wres = dev, wlog = []\<rparr> (iface a) addr = Some (h', Some err)" by simp
  from Scan_ran [OF assms(1,2) run_failure [OF this assms(4)]] Some
  show ?thesis by simp
qed

section \<open>Properties of \<^verbatim>\<open>writeARP\<close>\<close>

lemma SerializeLayers_again:
  "snd (SerializeLayers eth ((fst (SerializeLayers eth (arp\<lparr>DstProtAddress := ip\<rparr>)))\<lparr>DstProtAddress := ip'\<rparr>))
     = snd (SerializeLayers eth (arp\<lparr>DstProtAddress := ip'\<rparr>))"
  by (simp add: SerializeLayers_def Let_def)

lemma writeARP_loop_all_ok:
  "\<forall>k < length cands. wres h (length (wlog h) + k) = None \<Longrightarrow>
   writeARP_loop h eth arp cands
     = (h\<lparr>wlog := wlog h @ map (\<lambda>ip. snd (SerializeLayers eth (arp\<lparr>DstProtAddress := ip\<rparr>))) cands\<rparr>,
        None)"
proof (induction cands arbitrary: h arp)
  case Nil
  then show ?case by simp
next
  case (Cons ip rest)
  obtain arp' data where ser: "SerializeLayers eth (arp\<lparr>DstProtAddress := ip\<rparr>) = (arp', data)"
    by (cases "SerializeLayers eth (arp\<lparr>DstProtAddress := ip\<rparr>)") auto
  let ?h = "h\<lparr>wlog := wlog h @ [data]\<rparr>"
  from Cons.prems have first: "wres h (length (wlog h)) = None"
    by force
  have "\<forall>k < length rest. wres ?h (length (wlog ?h) + k) = None"
    using Cons.prems by force
  from Cons.IH [OF this, of arp']
  have "writeARP_loop ?h eth arp' rest
      = (?h\<lparr>wlog := wlog ?h @ map (\<lambda>ip'. snd (SerializeLayers eth (arp'\<lparr>DstProtAddress := ip'\<rparr>))) rest\<rparr>,
         None)" .
  moreover have "(\<lambda>ip'. snd (SerializeLayers eth (arp'\<lparr>DstProtAddress := ip'\<rparr>)))
      = (\<lambda>ip'. snd (SerializeLayers eth (arp\<lparr>DstProtAddress := ip'\<rparr>)))"
    using SerializeLayers_again [where eth = eth and arp = arp and ip = ip] ser by simp
  ultimately show ?case
    using first ser by (simp add: WritePacketData_def)
qed

lemma writeARP_loop_first_error:
  "j < length cands \<Longrightarrow> wres h (length (wlog h) + j) = Some err \<Longrightarrow>
   \<forall>k < j. wres h (length (wlog h) + k) = None \<Longrightarrow>
   writeARP_loop h eth arp cands
     = (h\<lparr>wlog := wlog h
           @ map (\<lambda>ip. snd (SerializeLayers eth (arp\<lparr>DstProtAddress := ip\<rparr>))) (take (Suc j) cands)\<rparr>,
        Some err)"
proof (induction cands arbitrary: h arp j)
  case Nil
  then show ?case by simp
next
  case (Cons ip rest)
  obtain arp' data where ser: "SerializeLayers eth (arp\<lparr>DstProtAddress := ip\<rparr>) = (arp', data)"
    by (cases "SerializeLayers eth (arp\<lparr>DstProtAddress := ip\<rparr>)") auto
  let ?h = "h\<lparr>wlog := wlog h @ [data]\<rparr>"
  show ?case
  proof (cases j)
    case 0
    with Cons.prems ser show ?thesis
      by (simp add: WritePacketData_def)
  next
    case (Suc i)
    with Cons.prems have first: "wres h (length (wlog h)) = None"
      by force
    have i: "i < length rest" "wres ?h (length (wlog ?h) + i) = Some err"
      using Cons.prems Suc by simp_all
    have "\<forall>k < i. wres ?h (length (wlog ?h) + k) = None"
      using Cons.prems(3) Suc by force
    from Cons.IH [OF i this, of arp']
    have "writeARP_loop ?h eth arp' rest
        = (?h\<lparr>wlog := wlog ?h
              @ map (\<lambda>ip'. snd (SerializeLayers eth (arp'\<lparr>DstProtAddress := ip'\<rparr>))) (take (Suc i) rest)\<rparr>,
           Some err)" .
    moreover have "(\<lambda>ip'. snd (SerializeLayers eth (arp'\<lparr>DstProtAddress := ip'\<rparr>)))
        = (\<lambda>ip'. snd (SerializeLayers eth (arp\<lparr>DstProtAddress := ip'\<rparr>)))"
      using SerializeLayers_again [where eth = eth and arp = arp and ip = ip] ser by simp
    ultimately show ?thesis
      using first ser Suc by (simp add: WritePacketData_def)
  qed
qed

lemma request_frame_six:
  assumes "length (HardwareAddr ifc) = 6" and "length (IP addr) = 4" and "length ip = 4"
  shows "request_frame ifc addr ip
     = Frame (writeARP_eth ifc) ((writeARP_arp ifc addr)\<lparr>DstProtAddress := ip\<rparr>)"
  using assms by (simp add: request_frame_def SerializeLayers_def Let_def writeARP_eth_def writeARP_arp_def)

lemma request_frame_not_six:
  assumes "length (HardwareAddr ifc) \<noteq> 6"
  shows "request_frame ifc addr ip
     = Zeros (8 + length (HardwareAddr ifc) + length (IP addr) + 6 + length ip)"
  using assms by (simp add: request_frame_def SerializeLayers_def Let_def writeARP_eth_def writeARP_arp_def)

lemma request_frame_six_other_ip:
  assumes "length (HardwareAddr ifc) = 6" and "length (IP addr) \<noteq> 4" and "length ip = 4"
  shows "request_frame ifc addr ip = Zeros (24 + length (IP addr))"
  using assms by (simp add: request_frame_def SerializeLayers_def Let_def writeARP_eth_def writeARP_arp_def)

lemma ips_lengths:
  assumes "ips addr = Some cands"
  shows "\<forall>ip \<in> set cands. length ip = 4"
  using assms
  by (auto simp add: ips_def ips_loop_closed length_PutUint32 split: option.splits)

lemma request_frames_six:
  assumes "ips addr = Some cands" and "length (HardwareAddr ifc) = 6" and "length (IP addr) = 4"
  shows "map (request_frame ifc addr) cands
     = map (\<lambda>ip. Frame (writeARP_eth ifc) ((writeARP_arp ifc addr)\<lparr>DstProtAddress := ip\<rparr>)) cands"
proof (rule map_cong)
  fix ip assume "ip \<in> set cands"
  with ips_lengths [OF assms(1)] have "length ip = 4" by simp
  with request_frame_six [OF assms(2,3)]
  show "request_frame ifc addr ip
      = Frame (writeARP_eth ifc) ((writeARP_arp ifc addr)\<lparr>DstProtAddress := ip\<rparr>)"
    by simp
qed simp

lemma request_frames_not_six:
  assumes "ips addr = Some cands" and "length (HardwareAddr ifc) \<noteq> 6"
  shows "map (request_frame ifc addr) cands
     = map (\<lambda>ip. Zeros (18 + length (HardwareAddr ifc) + length (IP addr))) cands"
proof (rule map_cong)
  fix ip assume "ip \<in> set cands"
  with ips_lengths [OF assms(1)] have "length ip = 4" by simp
  with request_frame_not_six [OF assms(2), of addr ip]
  show "request_frame ifc addr ip = Zeros (18 + length (HardwareAddr ifc) + length (IP addr))"
    by simp
qed simp

lemma request_frames_six_other_ip:
  assumes "ips addr = Some cands" and "length (HardwareAddr ifc) = 6" and "length (IP addr) \<noteq> 4"
  shows "map (request_frame ifc addr) cands = map (\<lambda>ip. Zeros (24 + length (IP addr))) cands"
proof (rule map_cong)
  fix ip assume "ip \<in> set cands"
  with ips_lengths [OF assms(1)] have "length ip = 4" by simp
  with request_frame_six_other_ip [OF assms(2,3)]
  show "request_frame ifc addr ip = Zeros (24 + length (IP addr))"
    by simp
qed simp

lemma writeARP_all_ok:
  assumes "ips addr = Some cands" and "\<forall>k < length cands. wres h (length (wlog h) + k) = None"
  shows "writeARP h ifc addr = Some (h\<lparr>wlog := wlog h @ map (request_frame ifc addr) cands\<rparr>, None)"
proof -
  have "request_frame ifc addr
      = (\<lambda>ip. snd (SerializeLayers (writeARP_eth ifc) ((writeARP_arp ifc addr)\<lparr>DstProtAddress := ip\<rparr>)))"
    by (rule ext) (simp add: request_frame_def)
  then show ?thesis
    using assms(1) writeARP_loop_all_ok [OF assms(2), of "writeARP_eth ifc" "writeARP_arp ifc addr"]
    by (simp add: writeARP_def)
qed

lemma writeARP_first_error:
  assumes "ips addr = Some cands" and "j < length cands"
    and "wres h (length (wlog h) + j) = Some err"
    and "\<forall>k < j. wres h (length (wlog h) + k) = None"
  shows "writeARP h ifc addr
     = Some (h\<lparr>wlog := wlog h @ map (request_frame ifc addr) (take (Suc j) cands)\<rparr>, Some err)"
proof -
  have "request_frame ifc addr
      = (\<lambda>ip. snd (SerializeLayers (writeARP_eth ifc) ((writeARP_arp ifc addr)\<lparr>DstProtAddress := ip\<rparr>)))"
    by (rule ext) (simp add: request_frame_def)
  then show ?thesis
    using assms(1) writeARP_loop_first_error [OF assms(2-4), of "writeARP_eth ifc" "writeARP_arp ifc addr"]
    by (simp add: writeARP_def)
qed

lemma Scan_write_error:
  assumes "Scan_resolve a = Resolved addr" and "OpenLive w (Name (iface a)) = Inr dev"
    and "writeARP \<lparr>wres = dev, wlog = []\<rparr> (iface a) addr = Some (h', Some err)"
  shows "\<exists>tbl. Scan a w (tbl, Some err) (wlog h')"
    and "\<forall>r sent. Scan a w r sent \<longrightarrow> snd r = Some err \<and> sent = wlog h'"
proof -
  from Scan_ran_possible [OF assms, of 0]
  show "\<exists>tbl. Scan a w (tbl, Some err) (wlog h')" by blast
  show "\<forall>r sent. Scan a w r sent \<longrightarrow> snd r = Some err \<and> sent = wlog h'"
    using Scan_ran_result(1) [OF assms(1,2)] assms(3) by fastforce
qed

lemma open_flaky: "OpenLive flaky (Name (iface nic29)) = Inr third_write_fails"
  by (simp add: flaky_def)

lemma writeARP_flaky:
  "writeARP \<lparr>wres = third_write_fails, wlog = []\<rparr> (iface nic29) net29
     = Some (\<lparr>wres = third_write_fails,
              wlog = map (request_frame (iface nic29) net29)
                       [[10, 0, 0, 8], [10, 0, 0, 9], [10, 0, 0, 10]]\<rparr>, Some down)"
  using writeARP_first_error [OF ips_net29, of 2 "\<lparr>wres = third_write_fails, wlog = []\<rparr>" down "iface nic29"]
  by (simp add: third_write_fails_def)

text \<open>
  C5. \<open>writeARP\<close> hands the content of the serialize buffer to the handle once per
  candidate, in the order of the candidates. When no write fails, all candidates are
  written and nil is returned. When write number \<open>j\<close> is the first to fail, the buffers
  of the candidates up to that one have been handed over and no later one, and the error of
  that write is returned. For a hardware address of six bytes and an address of four bytes
  each buffer holds the request frame of its candidate; for a hardware address of another
  length, or an address of another length, the serialization fails, its error is dropped
  and each buffer holds zero bytes.
  \<open>Scan\<close> returns the error of the failed write, whatever the listener does, with exactly
  those buffers handed over.
\<close>

theorem writeARP_stops_at_first_error:
  assumes "ips addr = Some cands"
  shows "((\<forall>k < length cands. wres h (length (wlog h) + k) = None) \<longrightarrow>
            writeARP h ifc addr
              = Some (h\<lparr>wlog := wlog h @ map (request_frame ifc addr) cands\<rparr>, None))
     \<and> (j < length cands \<and> wres h (length (wlog h) + j) = Some err
          \<and> (\<forall>k < j. wres h (length (wlog h) + k) = None) \<longrightarrow>
            writeARP h ifc addr
              = Some (h\<lparr>wlog := wlog h @ map (request_frame ifc addr) (take (Suc j) cands)\<rparr>,
                      Some err))
     \<and> (length (HardwareAddr ifc) = 6 \<and> length (IP addr) = 4 \<longrightarrow>
            map (request_frame ifc addr) cands
              = map (\<lambda>ip. Frame (writeARP_eth ifc) ((writeARP_arp ifc addr)\<lparr>DstProtAddress := ip\<rparr>))
                  cands)
     \<and> (length (HardwareAddr ifc) \<noteq> 6 \<longrightarrow>
            map (request_frame ifc addr) cands
              = map (\<lambda>ip. Zeros (18 + length (HardwareAddr ifc) + length (IP addr))) cands)
     \<and> (length (HardwareAddr ifc) = 6 \<and> length (IP addr) \<noteq> 4 \<longrightarrow>
            map (request_frame ifc addr) cands = map (\<lambda>ip. Zeros (24 + length (IP addr))) cands)
     \<and> (Scan_resolve a = Resolved addr \<and> OpenLive w (Name (iface a)) = Inr dev
          \<and> writeARP \<lparr>wres = dev, wlog = []\<rparr> (iface a) addr = Some (h', Some err) \<longrightarrow>
            (\<exists>tbl. Scan a w (tbl, Some err) (wlog h'))
            \<and> (\<forall>r sent. Scan a w r sent \<longrightarrow> snd r = Some err \<and> sent = wlog h'))"
  using writeARP_all_ok [OF assms] writeARP_first_error [OF assms]
    request_frames_six [OF assms] request_frames_not_six [OF assms]
    request_frames_six_other_ip [OF assms]
    Scan_write_error [of a addr w dev h' err]
  by blast

theorem writeARP_stops_at_first_error_witness:
  "ips net29 = Some [[10, 0, 0, 8], [10, 0, 0, 9], [10, 0, 0, 10], [10, 0, 0, 11],
                     [10, 0, 0, 12], [10, 0, 0, 13], [10, 0, 0, 14]]
   \<and> third_write_fails 0 = None \<and> third_write_fails 1 = None \<and> third_write_fails 2 = Some down
   \<and> writeARP \<lparr>wres = third_write_fails, wlog = []\<rparr> (iface nic29) net29
       = Some (\<lparr>wres = third_write_fails,
                wlog = map (\<lambda>ip. Frame (writeARP_eth (iface nic29))
                                    ((writeARP_arp (iface nic29) net29)\<lparr>DstProtAddress := ip\<rparr>))
                         [[10, 0, 0, 8], [10, 0, 0, 9], [10, 0, 0, 10]]\<rparr>, Some down)
   \<and> writeARP \<lparr>wres = (\<lambda>k. None), wlog = []\<rparr> (iface nic29) net29
       = Some (\<lparr>wres = (\<lambda>k. None),
                wlog = map (\<lambda>ip. Frame (writeARP_eth (iface nic29))
                                    ((writeARP_arp (iface nic29) net29)\<lparr>DstProtAddress := ip\<rparr>))
                         [[10, 0, 0, 8], [10, 0, 0, 9], [10, 0, 0, 10], [10, 0, 0, 11],
                          [10, 0, 0, 12], [10, 0, 0, 13], [10, 0, 0, 14]]\<rparr>, None)
   \<and> writeARP \<lparr>wres = (\<lambda>k. None), wlog = []\<rparr>
         (iface (nic [2, 0, 0, 0, 0, 0, 0, 1] [10, 0, 0, 10] [255, 255, 255, 248])) net29
       = Some (\<lparr>wres = (\<lambda>k. None),
                wlog = [Zeros 30, Zeros 30, Zeros 30, Zeros 30, Zeros 30, Zeros 30, Zeros 30]\<rparr>,
               None)
   \<and> (\<exists>tbl. Scan nic29 flaky (tbl, Some down)
         (map (request_frame (iface nic29) net29) [[10, 0, 0, 8], [10, 0, 0, 9], [10, 0, 0, 10]]))"
proof -
  let ?long = "iface (nic [2, 0, 0, 0, 0, 0, 0, 1] [10, 0, 0, 10] [255, 255, 255, 248])"
  have six: "length (HardwareAddr (iface nic29)) = 6 \<and> length (IP net29) = 4"
    by (simp add: nic29_def nic_def mac0_def net29_def)
  have eight: "length (HardwareAddr ?long) \<noteq> 6" "18 + length (HardwareAddr ?long) + length (IP net29) = 30"
    by (simp_all add: nic_def net29_def)
  have fails: "third_write_fails 0 = None" "third_write_fails 1 = None" "third_write_fails 2 = Some down"
    by (simp_all add: third_write_fails_def)
  note thm1 = writeARP_stops_at_first_error [OF ips_net29, where h = "\<lparr>wres = third_write_fails, wlog = []\<rparr>"
        and ifc = "iface nic29" and j = 2 and err = down and a = nic29 and w = flaky
        and dev = third_write_fails
        and h' = "\<lparr>wres = third_write_fails,
          wlog = map (request_frame (iface nic29) net29) [[10, 0, 0, 8], [10, 0, 0, 9], [10, 0, 0, 10]]\<rparr>"]
  note thm2 = writeARP_stops_at_first_error [OF ips_net29, where h = "\<lparr>wres = (\<lambda>k. None), wlog = []\<rparr>"
        and ifc = "iface nic29"]
  note thm3 = writeARP_stops_at_first_error [OF ips_net29, where h = "\<lparr>wres = (\<lambda>k. None), wlog = []\<rparr>"
        and ifc = ?long]
  have frames: "request_frame (iface nic29) net29 [b0, b1, b2, b3]
      = Frame (writeARP_eth (iface nic29))
          ((writeARP_arp (iface nic29) net29)\<lparr>DstProtAddress := [b0, b1, b2, b3]\<rparr>)" for b0 b1 b2 b3
    using six by (simp add: request_frame_six)
  have w1: "writeARP \<lparr>wres = third_write_fails, wlog = []\<rparr> (iface nic29) net29
       = Some (\<lparr>wres = third_write_fails,
                wlog = map (request_frame (iface nic29) net29)
                         [[10, 0, 0, 8], [10, 0, 0, 9], [10, 0, 0, 10]]\<rparr>, Some down)"
    using thm1 by (simp add: third_write_fails_def)
  have w2: "writeARP \<lparr>wres = (\<lambda>k. None), wlog = []\<rparr> (iface nic29) net29
       = Some (\<lparr>wres = (\<lambda>k. None),
                wlog = map (request_frame (iface nic29) net29)
                         [[10, 0, 0, 8], [10, 0, 0, 9], [10, 0, 0, 10], [10, 0, 0, 11],
                          [10, 0, 0, 12], [10, 0, 0, 13], [10, 0, 0, 14]]\<rparr>, None)"
    using thm2 by simp
  have w3: "writeARP \<lparr>wres = (\<lambda>k. None), wlog = []\<rparr> ?long net29
       = Some (\<lparr>wres = (\<lambda>k. None),
                wlog = [Zeros 30, Zeros 30, Zeros 30, Zeros 30, Zeros 30, Zeros 30, Zeros 30]\<rparr>,
               None)"
    using thm3 eight by simp
  have sc: "\<exists>tbl. Scan nic29 flaky (tbl, Some down)
         (map (request_frame (iface nic29) net29) [[10, 0, 0, 8], [10, 0, 0, 9], [10, 0, 0, 10]])"
    using thm1 w1 resolve_nic29 open_flaky by simp
  show ?thesis
    using ips_net29 fails(1-3) w1 w2 w3 sc frames
    by simp
qed

section \<open>Errors and the result table\<close>

lemma received_peer: "received (iface nic29) [peer_reply] 1 = [peer_entry]"
  by (simp add: received_def readARP_packet_def peer_reply_def peer_entry_def nic29_def nic_def
      mac0_def ARPReply_def)

lemma Scan_flaky_partial:
  "Scan nic29 flaky ([peer_entry], Some down)
     (map (request_frame (iface nic29) net29) [[10, 0, 0, 8], [10, 0, 0, 9], [10, 0, 0, 10]])"
proof -
  have "Packets flaky = [peer_reply]" by (simp add: flaky_def)
  then show ?thesis
    using Scan_ran_possible [OF resolve_nic29 open_flaky writeARP_flaky, of 1] received_peer
    by simp
qed

lemma open_denied: "OpenLive denied (Name (iface (nic mac0 [172, 16, 0, 9] [255, 255, 0, 0]))) = Inl (Err ''eth0: permission denied'')"
  by (simp add: denied_def nic_def)

text \<open>
  C6, as the code has it. When \<open>Scan\<close> returns an error from a validation step or from
  opening the capture handle, the returned table is empty and no frame was handed to a
  handle. Any other error returned is the error of a failed write of \<open>writeARP\<close>.
\<close>

theorem Scan_error_table:
  assumes "Scan a w (tbl, Some err) sent"
  shows "(Scan_resolve a = Failed e \<longrightarrow> tbl = [] \<and> sent = [] \<and> err = e)
     \<and> (Scan_resolve a = Resolved addr \<and> OpenLive w (Name (iface a)) = Inl e \<longrightarrow>
           tbl = [] \<and> sent = [] \<and> err = e)
     \<and> (Scan_resolve a = Resolved addr \<and> OpenLive w (Name (iface a)) = Inr dev \<longrightarrow>
           (\<exists>h'. writeARP \<lparr>wres = dev, wlog = []\<rparr> (iface a) addr = Some (h', Some err)
                \<and> sent = wlog h'))"
proof (intro conjI impI)
  assume f: "Scan_resolve a = Failed e"
  from assms show "tbl = []" "sent = []" "err = e"
    by (simp_all add: Scan_invalid_iff [OF f])
next
  assume "Scan_resolve a = Resolved addr \<and> OpenLive w (Name (iface a)) = Inl e"
  then have ro: "Scan_resolve a = Resolved addr" "OpenLive w (Name (iface a)) = Inl e"
    by simp_all
  from assms show "tbl = []" "sent = []" "err = e"
    by (simp_all add: Scan_open_failed_iff [OF ro])
next
  assume "Scan_resolve a = Resolved addr \<and> OpenLive w (Name (iface a)) = Inr dev"
  then have ro: "Scan_resolve a = Resolved addr" "OpenLive w (Name (iface a)) = Inr dev"
    by simp_all
  from Scan_ran_result(1) [OF ro assms]
  show "\<exists>h'. writeARP \<lparr>wres = dev, wlog = []\<rparr> (iface a) addr = Some (h', Some err)
      \<and> sent = wlog h'"
    by simp
qed

theorem Scan_error_table_witness:
  "Scan bare quiet ([], Some (Err ''Could not obtain MAC address'')) []
   \<and> Scan (nic mac0 [172, 16, 0, 9] [255, 255, 0, 0]) denied
        ([], Some (Err ''eth0: permission denied'')) []
   \<and> Scan nic29 flaky ([peer_entry], Some down)
        (map (request_frame (iface nic29) net29) [[10, 0, 0, 8], [10, 0, 0, 9], [10, 0, 0, 10]])
   \<and> (\<exists>h'. writeARP \<lparr>wres = third_write_fails, wlog = []\<rparr> (iface nic29) net29
             = Some (h', Some down))"
  using Scan_error_table [OF Scan_invalid [OF resolve_bare, of quiet], where e = "Err ''Could not obtain MAC address''"]
    Scan_error_table [OF Scan_open_failed [OF resolve_nic16 open_denied], where addr = "\<lparr>IP = [172, 16, 0, 9], Mask = [255, 255, 0, 0]\<rparr>"]
    Scan_error_table [OF Scan_flaky_partial, where addr = net29 and dev = third_write_fails]
    Scan_invalid [OF resolve_bare, of quiet] Scan_open_failed [OF resolve_nic16 open_denied]
    resolve_nic29 open_flaky Scan_flaky_partial
  by auto

text \<open>
  C6 as claimed fails: with a reply to the second probe that arrives before the third
  write fails, \<open>Scan\<close> returns the write error together with a table of one entry.
\<close>

theorem Scan_partial_table_counterexample:
  "Scan nic29 flaky ([peer_entry], Some down)
     (map (request_frame (iface nic29) net29) [[10, 0, 0, 8], [10, 0, 0, 9], [10, 0, 0, 10]])
   \<and> [peer_entry] \<noteq> []"
  using Scan_flaky_partial by simp

section \<open>The empty enumeration\<close>

lemma Scan_no_candidates:
  assumes r: "Scan_resolve a = Resolved addr" and o: "OpenLive w (Name (iface a)) = Inr dev"
    and i: "ips addr = Some []"
  shows "\<exists>tbl. Scan a w (tbl, None) []"
    and "\<forall>r sent. Scan a w r sent \<longrightarrow> snd r = None \<and> sent = []"
proof -
  have w: "writeARP \<lparr>wres = dev, wlog = []\<rparr> (iface a) addr = Some (\<lparr>wres = dev, wlog = []\<rparr>, None)"
    using i by (simp add: writeARP_def)
  from Scan_ran_possible [OF r o w, of 0]
  show "\<exists>tbl. Scan a w (tbl, None) []" by auto
  show "\<forall>r sent. Scan a w r sent \<longrightarrow> snd r = None \<and> sent = []"
    using Scan_ran_result(1) [OF r o] w by fastforce
qed

text \<open>
  C9. For an address and a mask of four bytes \<open>ips\<close> returns, with as many addresses
  as \<open>2^32 - 1\<close> minus the mask bytes read as a big-endian number. When the first two
  mask octets are \<open>0xff\<close>, as after the validation of \<open>Scan\<close>, there are at most 65535
  of them. For the mask 255.255.255.255 there is none: when the interface passes the
  validation and the handle opens, \<open>Scan\<close> returns without error and without a frame
  handed to the handle.
\<close>

theorem ips_terminates_with_length:
  assumes "length ip = 4" and "length mk = 4"
  shows "\<exists>out. ips \<lparr>IP = ip, Mask = mk\<rparr> = Some out
     \<and> length out
         = 2 ^ 32 - 1 - (unat (mk ! 0) * 2 ^ 24 + unat (mk ! 1) * 2 ^ 16 + unat (mk ! 2) * 2 ^ 8 + unat (mk ! 3))
     \<and> (mk ! 0 = 0xff \<and> mk ! 1 = 0xff \<longrightarrow> length out \<le> 65535)
     \<and> (Scan_resolve a = Resolved \<lparr>IP = ip, Mask = mk\<rparr> \<longrightarrow> length out \<le> 65535)
     \<and> (mk = [255, 255, 255, 255] \<longrightarrow> out = [])
     \<and> (mk = [255, 255, 255, 255] \<and> Scan_resolve a = Resolved \<lparr>IP = ip, Mask = mk\<rparr>
          \<and> OpenLive w (Name (iface a)) = Inr dev \<longrightarrow>
            (\<exists>tbl. Scan a w (tbl, None) [])
            \<and> (\<forall>r sent. Scan a w r sent \<longrightarrow> snd r = None \<and> sent = []))"
proof -
  from Uint32_total [OF assms(1)] obtain num where num: "Uint32 ip = Some num" by blast
  from Uint32_total [OF assms(2)] obtain msk where msk: "Uint32 mk = Some msk" by blast
  from length4_cases [OF assms(2)] obtain m0 m1 m2 m3 where mk: "mk = [m0, m1, m2, m3]"
    by blast
  from ips_length [OF num msk] obtain out where
    out: "ips \<lparr>IP = ip, Mask = mk\<rparr> = Some out" "length out = 2 ^ 32 - 1 - unat msk"
    by blast
  have count: "length out
      = 2 ^ 32 - 1 - (unat (mk ! 0) * 2 ^ 24 + unat (mk ! 1) * 2 ^ 16 + unat (mk ! 2) * 2 ^ 8 + unat (mk ! 3))"
    using out(2) unat_Uint32 [of m0 m1 m2 m3 msk] msk mk by simp
  have bound: "length out \<le> 65535" if "mk ! 0 = 0xff \<and> mk ! 1 = 0xff"
    using that mk msk out(2) Uint32_slash16 [of m2 m3 msk] by simp
  have bound': "length out \<le> 65535" if "Scan_resolve a = Resolved \<lparr>IP = ip, Mask = mk\<rparr>"
    using bound Scan_resolve_Resolved(5,6) [OF that] by simp
  have empty: "out = []" if "mk = [255, 255, 255, 255]"
    using out(1) num that by (simp add: ips_slash32)
  have scan: "(\<exists>tbl. Scan a w (tbl, None) [])
       \<and> (\<forall>r sent. Scan a w r sent \<longrightarrow> snd r = None \<and> sent = [])"
    if "mk = [255, 255, 255, 255] \<and> Scan_resolve a = Resolved \<lparr>IP = ip, Mask = mk\<rparr>
          \<and> OpenLive w (Name (iface a)) = Inr dev"
  proof -
    from that out(1) empty have "ips \<lparr>IP = ip, Mask = mk\<rparr> = Some []" by simp
    with that Scan_no_candidates [of a "\<lparr>IP = ip, Mask = mk\<rparr>" w dev] show ?thesis
      by blast
  qed
  from out(1) count bound bound' empty scan show ?thesis
    by blast
qed

theorem ips_terminates_with_length_witness:
  "length [192, 168, 1, 0 :: byte] = 4 \<and> length [255, 255, 255, 0 :: byte] = 4
   \<and> (\<exists>out. ips \<lparr>IP = [192, 168, 1, 0], Mask = [255, 255, 255, 0]\<rparr> = Some out \<and> length out = 255)
   \<and> (\<exists>out. ips \<lparr>IP = [172, 16, 0, 9], Mask = [255, 255, 0, 0]\<rparr> = Some out \<and> length out = 65535)
   \<and> ips \<lparr>IP = [10, 0, 0, 5], Mask = [255, 255, 255, 255]\<rparr> = Some []
   \<and> Scan_resolve (nic mac0 [10, 0, 0, 5] [255, 255, 255, 255])
       = Resolved \<lparr>IP = [10, 0, 0, 5], Mask = [255, 255, 255, 255]\<rparr>
   \<and> (\<exists>tbl. Scan (nic mac0 [10, 0, 0, 5] [255, 255, 255, 255]) quiet (tbl, None) [])"
proof -
  have l: "length [10, 0, 0, 5 :: byte] = 4" "length [255, 255, 255, 255 :: byte] = 4"
    "length [192, 168, 1, 0 :: byte] = 4" "length [255, 255, 255, 0 :: byte] = 4"
    "length [172, 16, 0, 9 :: byte] = 4" "length [255, 255, 0, 0 :: byte] = 4"
    by simp_all
  have r: "Scan_resolve (nic mac0 [10, 0, 0, 5] [255, 255, 255, 255])
       = Resolved \<lparr>IP = [10, 0, 0, 5], Mask = [255, 255, 255, 255]\<rparr>"
    by (simp add: nic_def mac0_def Scan_resolve_def To4_def)
  have o: "OpenLive quiet (Name (iface (nic mac0 [10, 0, 0, 5] [255, 255, 255, 255]))) = Inr (\<lambda>k. None)"
    by (simp add: quiet_def)
  have c24: "\<exists>out. ips \<lparr>IP = [192, 168, 1, 0], Mask = [255, 255, 255, 0]\<rparr> = Some out \<and> length out = 255"
    using ips_terminates_with_length [OF l(3,4), where a = bare] by auto
  have c16: "\<exists>out. ips \<lparr>IP = [172, 16, 0, 9], Mask = [255, 255, 0, 0]\<rparr> = Some out \<and> length out = 65535"
    using ips_terminates_with_length [OF l(5,6), where a = bare] by auto
  from ips_terminates_with_length [OF l(1,2), where a = "nic mac0 [10, 0, 0, 5] [255, 255, 255, 255]"
      and w = quiet and dev = "\<lambda>k. None"]
  show ?thesis
    using l r o c24 c16 by auto
qed

section \<open>The cancellation handoff\<close>

lemma stopped_stable_step:
  "step ifc addr s s' \<Longrightarrow> listener s = L_returned \<Longrightarrow> listener s' = L_returned \<and> at s' = at s"
  by (cases rule: step.cases) auto

lemma stopped_stable_run:
  "(step ifc addr)\<^sup>*\<^sup>* s s' \<Longrightarrow> listener s = L_returned \<Longrightarrow> listener s' = L_returned \<and> at s' = at s"
  by (induction rule: rtranclp_induct) (auto dest: stopped_stable_step)

lemma append_only_listener:
  "step ifc addr s s' \<Longrightarrow> at s' \<noteq> at s \<Longrightarrow>
   listener s = L_select \<and> listener s' = L_select \<and> coord s' = coord s
   \<and> (\<exists>packet. at s' = readARP_packet ifc (at s) packet)"
  by (cases rule: step.cases) auto

lemma send_blocks:
  "step ifc addr s s' \<Longrightarrow> coord s = C_send \<Longrightarrow> coord s' \<noteq> C_send \<Longrightarrow>
   listener s = L_select \<and> listener s' = L_returned \<and> coord s' = C_return_ok \<and> at s' = at s"
  by (cases rule: step.cases) auto

lemma success_read:
  assumes "(step ifc addr)\<^sup>*\<^sup>* (start h packets) s"
  shows "coord s = C_return_ok \<Longrightarrow> listener s = L_returned"
    and "results (coord s) = Some (tbl, None) \<Longrightarrow> listener s = L_returned \<and> tbl = at s"
  using run_coord_inv [OF assms]
  by (cases "coord s"; simp add: coord_inv_def read_inv_def)+

lemma writeARP_nic29_ok:
  "writeARP \<lparr>wres = (\<lambda>k. None), wlog = []\<rparr> (iface nic29) net29
     = Some (\<lparr>wres = (\<lambda>k. None),
              wlog = map (request_frame (iface nic29) net29)
                       [[10, 0, 0, 8], [10, 0, 0, 9], [10, 0, 0, 10], [10, 0, 0, 11],
                        [10, 0, 0, 12], [10, 0, 0, 13], [10, 0, 0, 14]]\<rparr>, None)"
  using writeARP_all_ok [OF ips_net29, of "\<lparr>wres = (\<lambda>k. None), wlog = []\<rparr>" "iface nic29"]
  by simp

lemma run_after_success:
  "(step (iface nic29) net29)\<^sup>*\<^sup>* (start \<lparr>wres = (\<lambda>k. None), wlog = []\<rparr> [peer_reply]) after_success"
  using run_success [OF writeARP_nic29_ok, of 1 "[peer_reply]"] received_peer
  by (simp add: after_success_def)

lemma run_after_failure:
  "(step (iface nic29) net29)\<^sup>*\<^sup>* (start \<lparr>wres = third_write_fails, wlog = []\<rparr> [peer_reply]) after_failure"
proof -
  let ?s = "\<lparr>at = received (iface nic29) [peer_reply] 0,
      handle = \<lparr>wres = third_write_fails,
                wlog = (map (request_frame (iface nic29) net29) [[10, 0, 0, 8], [10, 0, 0, 9], [10, 0, 0, 10]])\<rparr>,
      stop_closed = True, inq = drop 0 [peer_reply],
      coord = C_returned (received (iface nic29) [peer_reply] 0, Some down), listener = L_select\<rparr>"
  have run: "(step (iface nic29) net29)\<^sup>*\<^sup>* (start \<lparr>wres = third_write_fails, wlog = []\<rparr> [peer_reply]) ?s"
    by (rule run_failure [OF writeARP_flaky]) simp
  have "step (iface nic29) net29 ?s (?s\<lparr>at := readARP_packet (iface nic29) (at ?s) peer_reply, inq := []\<rparr>)"
    by (rule step.receive) simp_all
  moreover have "?s\<lparr>at := readARP_packet (iface nic29) (at ?s) peer_reply, inq := []\<rparr> = after_failure"
    using received_peer by (simp add: after_failure_def received_def)
  ultimately have "step (iface nic29) net29 ?s after_failure"
    by simp
  with run show ?thesis
    by (rule rtranclp.rtrancl_into_rtrancl)
qed

text \<open>
  The handoff on the path where \<open>writeARP\<close> succeeds. Only a step of the listener at
  its \<^verbatim>\<open>select\<close> changes the table. The coordinator leaves the send of line 128 only in
  a step that the listener takes with it, after which the listener has returned. Once the
  listener has returned the table never changes again. So when the coordinator is past the
  send the listener has returned, and the table in the results with a nil error is the
  table as it is then and stays.
\<close>

lemma rendezvous_before_read_on_success:
  "(step ifc addr s s' \<and> at s' \<noteq> at s \<longrightarrow>
      listener s = L_select \<and> listener s' = L_select \<and> coord s' = coord s)
   \<and> (step ifc addr s s' \<and> coord s = C_send \<and> coord s' \<noteq> C_send \<longrightarrow>
      listener s = L_select \<and> listener s' = L_returned \<and> coord s' = C_return_ok)
   \<and> ((step ifc addr)\<^sup>*\<^sup>* s s' \<and> listener s = L_returned \<longrightarrow> at s' = at s)
   \<and> ((step ifc addr)\<^sup>*\<^sup>* (start h packets) s \<and> coord s = C_return_ok \<longrightarrow> listener s = L_returned)
   \<and> ((step ifc addr)\<^sup>*\<^sup>* (start h packets) s \<and> results (coord s) = Some (tbl, None) \<longrightarrow>
        listener s = L_returned \<and> tbl = at s)"
  using append_only_listener [of ifc addr s s'] send_blocks [of ifc addr s s']
    stopped_stable_run [of ifc addr s s'] success_read [of ifc addr h packets s]
  by blast

lemma rendezvous_before_read_on_success_example:
  "(step (iface nic29) net29)\<^sup>*\<^sup>* (start \<lparr>wres = (\<lambda>k. None), wlog = []\<rparr> [peer_reply]) after_success
   \<and> results (coord after_success) = Some ([peer_entry], None)
   \<and> listener after_success = L_returned \<and> at after_success = [peer_entry]"
  using rendezvous_before_read_on_success [where ifc = "iface nic29" and addr = net29
      and h = "\<lparr>wres = (\<lambda>k. None), wlog = []\<rparr>" and packets = "[peer_reply]"
      and s = after_success and s' = after_success and tbl = "[peer_entry]"]
    run_after_success
  by (simp add: after_success_def)

text \<open>
  C7 at a failed write. The interface has the address 10.0.0.10/29, its device refuses
  the third write, and one reply is delivered. The coordinator has read the empty table
  and returned it with the error of the write (line 122), before the deferred
  \<^verbatim>\<open>close(stop)\<close> and without a rendezvous: the listener is still at its
  \<^verbatim>\<open>select\<close>, and the table has grown by one entry since the read.
\<close>

theorem failed_write_read_without_rendezvous:
  "(step (iface nic29) net29)\<^sup>*\<^sup>* (start \<lparr>wres = third_write_fails, wlog = []\<rparr> [peer_reply]) after_failure
   \<and> coord after_failure = C_returned ([], Some down)
   \<and> listener after_failure = L_select
   \<and> at after_failure = [peer_entry]
   \<and> at after_failure \<noteq> []"
  using run_after_failure by (simp add: after_failure_def)

section \<open>The filter of the listener\<close>

lemma foldl_readARP_no_local:
  "\<forall>e \<in> set tables. at_HardwareAddr e \<noteq> HardwareAddr ifc \<Longrightarrow>
   \<forall>e \<in> set (foldl (readARP_packet ifc) tables packets). at_HardwareAddr e \<noteq> HardwareAddr ifc"
proof (induction packets arbitrary: tables)
  case Nil
  then show ?case by simp
next
  case (Cons p ps)
  have "\<forall>e \<in> set (readARP_packet ifc tables p). at_HardwareAddr e \<noteq> HardwareAddr ifc"
    using Cons.prems by (auto simp add: readARP_packet_def split: option.splits)
  from Cons.IH [OF this] show ?case by simp
qed

lemma run_no_local:
  assumes "(step ifc addr)\<^sup>*\<^sup>* (start h packets) s"
  shows "\<forall>e \<in> set (at s). at_HardwareAddr e \<noteq> HardwareAddr ifc"
proof -
  from run_received [OF assms] obtain n where "at s = received ifc packets n" by blast
  then show ?thesis
    using foldl_readARP_no_local [of "[]" ifc "take n packets"] by (simp add: received_def)
qed

lemma Scan_no_local:
  assumes "Scan a w r sent"
  shows "\<forall>e \<in> set (fst r). at_HardwareAddr e \<noteq> HardwareAddr (iface a)"
  using assms
proof (cases rule: Scan.cases)
  case (Scan_ran addr dev s)
  from run_coord_inv [OF Scan_ran(4)] Scan_ran(5)
  obtain m where "fst r = received (iface a) (Packets w) m"
    by (auto simp add: coord_inv_def read_inv_def)
  then show ?thesis
    using foldl_readARP_no_local [of "[]" "iface a" "take m (Packets w)"] by (simp add: received_def)
qed simp_all

text \<open>
  C4. For one received packet the listener appends the entry (source protocol address,
  source hardware address) exactly when the packet has an ARP layer whose operation is
  \<^verbatim>\<open>ARPReply\<close> and whose source hardware address differs from the interface's; in every
  other case the table stays as it is. The target protocol address plays no part. An
  appended entry never carries the interface's own hardware address, so no table of a run
  and no table returned by \<open>Scan\<close> holds such an entry.
\<close>

theorem readARP_packet_filter:
  "(LayerARP packet = None \<longrightarrow> readARP_packet ifc tables packet = tables)
   \<and> (LayerARP packet = Some arp \<and> Operation arp = ARPReply \<and> SourceHwAddress arp \<noteq> HardwareAddr ifc
        \<longrightarrow> readARP_packet ifc tables packet
              = tables @ [\<lparr>at_IP = SourceProtAddress arp, at_HardwareAddr = SourceHwAddress arp\<rparr>])
   \<and> (LayerARP packet = Some arp \<and> (Operation arp \<noteq> ARPReply \<or> SourceHwAddress arp = HardwareAddr ifc)
        \<longrightarrow> readARP_packet ifc tables packet = tables)
   \<and> readARP_packet ifc tables (Packet (Some (arp\<lparr>DstProtAddress := target\<rparr>)))
        = readARP_packet ifc tables (Packet (Some arp))
   \<and> (readARP_packet ifc tables packet = tables
        \<or> (\<exists>entry. readARP_packet ifc tables packet = tables @ [entry]
              \<and> at_HardwareAddr entry \<noteq> HardwareAddr ifc))
   \<and> ((step ifc addr)\<^sup>*\<^sup>* (start h packets) s \<longrightarrow>
        (\<forall>e \<in> set (at s). at_HardwareAddr e \<noteq> HardwareAddr ifc))
   \<and> (Scan a w r sent \<longrightarrow> (\<forall>e \<in> set (fst r). at_HardwareAddr e \<noteq> HardwareAddr (iface a)))"
proof (intro conjI impI)
  assume "(step ifc addr)\<^sup>*\<^sup>* (start h packets) s"
  then show "\<forall>e \<in> set (at s). at_HardwareAddr e \<noteq> HardwareAddr ifc"
    by (rule run_no_local)
next
  assume "Scan a w r sent"
  then show "\<forall>e \<in> set (fst r). at_HardwareAddr e \<noteq> HardwareAddr (iface a)"
    by (rule Scan_no_local)
qed (auto simp add: readARP_packet_def split: option.splits)

theorem readARP_packet_filter_witness:
  "readARP_packet (iface nic29) [] peer_reply = [peer_entry]
   \<and> readARP_packet (iface nic29) [peer_entry] own_reply = [peer_entry]
   \<and> readARP_packet (iface nic29) [peer_entry] peer_request = [peer_entry]
   \<and> readARP_packet (iface nic29) [peer_entry] (Packet None) = [peer_entry]"
  using readARP_packet_filter [where ifc = "iface nic29" and tables = "[]" and packet = peer_reply
      and arp = "the (LayerARP peer_reply)"]
    readARP_packet_filter [where ifc = "iface nic29" and tables = "[peer_entry]" and packet = own_reply
      and arp = "the (LayerARP own_reply)"]
    readARP_packet_filter [where ifc = "iface nic29" and tables = "[peer_entry]" and packet = peer_request
      and arp = "the (LayerARP peer_request)"]
    readARP_packet_filter [where ifc = "iface nic29" and tables = "[peer_entry]" and packet = "Packet None"]
  by (simp add: peer_reply_def own_reply_def peer_request_def peer_entry_def nic29_def nic_def mac0_def
      ARPReply_def ARPRequest_def)

end
